theory Spec2Isabelle
  imports Complex_Main "HOL-Library.Char_ord" "HOL-Library.List_Lexorder" "HOL-Library.Product_Lexorder"
begin

section \<open>Data model of package scanner\<close>

text \<open>
  Go strings are byte sequences: a \<^typ>\<open>string\<close> is a list of 8-bit characters, and
  \<open>of_char\<close> reads a byte as a number. A rune is a code point; the decoder only ever
  produces values between 0 and 0x10FFFF, so runes are natural numbers. The counters
  \<open>i\<close>, \<open>line\<close> and \<open>col\<close> of the scanner are Go \<open>int\<close>s that start at 0 or 1 and only
  grow by at most the length of the file; they are natural numbers here.
\<close>

type_synonym rune = nat

type_synonym Severity = string

definition SeverityError :: Severity where
  "SeverityError = ''error''"

definition SeverityWarning :: Severity where
  "SeverityWarning = ''warning''"

text \<open>
  The field \<open>Severity\<close> of \<open>Options\<close> is called \<open>DefaultSeverity\<close> here, the field
  \<open>Path\<close> of \<open>SkippedFile\<close> is \<open>SkippedPath\<close> and the field \<open>Findings\<close> of \<open>Summary\<close> is
  \<open>FindingsCount\<close>, because record fields share one name space. \<open>AllowRunes\<close> is a
  \<open>map[rune]struct{}\<close>, that is a set of runes; the nil map is the empty set.
\<close>

record Options =
  Include :: "string list"
  Exclude :: "string list"
  AllowRunes :: "rune set"
  DefaultSeverity :: Severity
  IgnoreComments :: bool
  IgnoreStrings :: bool
  AllowFilePatterns :: "string list"

record Finding =
  Path :: string
  Line :: nat
  Column :: nat
  Character :: string
  CodePoint :: string
  Category :: string
  Severity :: Severity
  Message :: string
  Excerpt :: string

record SkippedFile =
  SkippedPath :: string
  Reason :: string

record Summary =
  FilesScanned :: nat
  FilesSkipped :: nat
  FindingsCount :: nat

record Result =
  Findings :: "Finding list"
  ScannedFiles :: "string list"
  SkippedFiles :: "SkippedFile list"
  Summary :: Summary

record syntaxRules =
  lineComments :: "string list"
  blockStart :: string
  blockEnd :: string
  strings :: bool
  backtick :: bool

datatype scanState =
  stateCode | stateLineComment | stateBlockComment
  | stateSingleString | stateDoubleString | stateBacktickString

section \<open>The Go library functions the scanner calls\<close>

subsection \<open>unicode/utf8\<close>

definition RuneError :: rune where
  "RuneError = 0xFFFD"

definition is_cont :: "nat \<Rightarrow> bool" where
  "is_cont b = (0x80 \<le> b \<and> b \<le> 0xBF)"

text \<open>
  \<open>utf8.DecodeRuneInString\<close>: the rune at the start of the string and its width in bytes;
  \<open>(RuneError, 0)\<close> for the empty string and \<open>(RuneError, 1)\<close> for an encoding that is
  invalid, too short, overlong, a surrogate or beyond U+10FFFF. The second byte of a
  sequence is checked against the accept range of the first byte, as in the library.
\<close>

fun DecodeRuneInString :: "string \<Rightarrow> rune \<times> nat" where
  "DecodeRuneInString [] = (RuneError, 0)"
| "DecodeRuneInString (c0 # cs) =
    (let s0 = (of_char c0 :: nat) in
     if s0 < 0x80 then (s0, 1)
     else if s0 < 0xC2 \<or> 0xF4 < s0 then (RuneError, 1)
     else if s0 < 0xE0 then
       (case cs of
          c1 # _ \<Rightarrow>
            (let s1 = (of_char c1 :: nat) in
             if is_cont s1 then ((s0 mod 32) * 64 + s1 mod 64, 2) else (RuneError, 1))
        | _ \<Rightarrow> (RuneError, 1))
     else if s0 < 0xF0 then
       (case cs of
          c1 # c2 # _ \<Rightarrow>
            (let s1 = (of_char c1 :: nat); s2 = (of_char c2 :: nat);
                 lo = (if s0 = 0xE0 then 0xA0 else 0x80);
                 hi = (if s0 = 0xED then 0x9F else 0xBF) in
             if s1 < lo \<or> hi < s1 then (RuneError, 1)
             else if \<not> is_cont s2 then (RuneError, 1)
             else ((s0 mod 16) * 4096 + (s1 mod 64) * 64 + s2 mod 64, 3))
        | _ \<Rightarrow> (RuneError, 1))
     else
       (case cs of
          c1 # c2 # c3 # _ \<Rightarrow>
            (let s1 = (of_char c1 :: nat); s2 = (of_char c2 :: nat);
                 s3 = (of_char c3 :: nat);
                 lo = (if s0 = 0xF0 then 0x90 else 0x80);
                 hi = (if s0 = 0xF4 then 0x8F else 0xBF) in
             if s1 < lo \<or> hi < s1 then (RuneError, 1)
             else if \<not> is_cont s2 then (RuneError, 1)
             else if \<not> is_cont s3 then (RuneError, 1)
             else ((s0 mod 8) * 262144 + (s1 mod 64) * 4096 + (s2 mod 64) * 64 + s3 mod 64, 4))
        | _ \<Rightarrow> (RuneError, 1)))"

text \<open>\<open>utf8.RuneLen\<close>: the number of bytes of the encoding of a rune, -1 if it has none.\<close>

definition RuneLen :: "rune \<Rightarrow> int" where
  "RuneLen r =
    (if r \<le> 0x7F then 1
     else if r \<le> 0x7FF then 2
     else if 0xD800 \<le> r \<and> r \<le> 0xDFFF then -1
     else if r \<le> 0xFFFF then 3
     else if r \<le> 0x10FFFF then 4
     else -1)"

text \<open>
  The conversion \<open>string(r)\<close>: the UTF-8 encoding of a rune, the encoding of U+FFFD for a
  value that is no code point.
\<close>

definition byte :: "nat \<Rightarrow> char" where
  "byte n = char_of n"

definition string_of_rune :: "rune \<Rightarrow> string" where
  "string_of_rune r =
    (if r \<le> 0x7F then [byte r]
     else if r \<le> 0x7FF then [byte (0xC0 + r div 64), byte (0x80 + r mod 64)]
     else if (0xD800 \<le> r \<and> r \<le> 0xDFFF) \<or> 0x10FFFF < r then [byte 0xEF, byte 0xBF, byte 0xBD]
     else if r \<le> 0xFFFF then
       [byte (0xE0 + r div 4096), byte (0x80 + (r div 64) mod 64), byte (0x80 + r mod 64)]
     else
       [byte (0xF0 + r div 262144), byte (0x80 + (r div 4096) mod 64),
        byte (0x80 + (r div 64) mod 64), byte (0x80 + r mod 64)])"

lemma DecodeRuneInString_size_pos: "s \<noteq> [] \<Longrightarrow> 1 \<le> snd (DecodeRuneInString s)"
  by (cases s) (auto simp: Let_def split: list.splits)

lemma DecodeRuneInString_size_le: "snd (DecodeRuneInString s) \<le> length s"
  by (cases s) (auto simp: Let_def split: list.splits)

text \<open>
  \<open>for _, r := range token\<close>: the runes of a string in order, \<open>RuneError\<close> for each byte
  that starts no valid encoding.
\<close>

function range_runes :: "string \<Rightarrow> rune list" where
  "range_runes s =
    (if s = [] then []
     else fst (DecodeRuneInString s) # range_runes (drop (snd (DecodeRuneInString s)) s))"
  by pat_completeness auto
termination
proof (relation "measure length")
  show "wf (measure length)" by simp
next
  fix s :: string
  assume "s \<noteq> []"
  then have "1 \<le> snd (DecodeRuneInString s)" by (rule DecodeRuneInString_size_pos)
  with \<open>s \<noteq> []\<close> show "(drop (snd (DecodeRuneInString s)) s, s) \<in> measure length"
    by (cases s) auto
qed

declare range_runes.simps [simp del]

subsection \<open>strings and fmt\<close>

definition HasPrefix :: "string \<Rightarrow> string \<Rightarrow> bool" where
  "HasPrefix s p = (take (length p) s = p)"

definition HasSuffix :: "string \<Rightarrow> string \<Rightarrow> bool" where
  "HasSuffix s p = (length p \<le> length s \<and> drop (length s - length p) s = p)"

definition TrimSuffix :: "string \<Rightarrow> string \<Rightarrow> string" where
  "TrimSuffix s p = (if HasSuffix s p then take (length s - length p) s else s)"

text \<open>\<open>strings.Split(text, "\n")\<close>: one more piece than there are newline bytes.\<close>

fun Split_nl :: "string \<Rightarrow> string list" where
  "Split_nl [] = [[]]"
| "Split_nl (c # cs) =
    (if c = CHR 0x0A then [] # Split_nl cs
     else (case Split_nl cs of l # ls \<Rightarrow> (c # l) # ls | [] \<Rightarrow> [[c]]))"

text \<open>\<open>strings.TrimRight(s, "\r")\<close>: every trailing carriage return is removed.\<close>

definition TrimRight_cr :: "string \<Rightarrow> string" where
  "TrimRight_cr s = rev (dropWhile (\<lambda>c. c = CHR 0x0D) (rev s))"

definition hex_digit :: "nat \<Rightarrow> char" where
  "hex_digit d = (if d < 10 then byte (48 + d) else byte (55 + d))"

function hex_upper :: "nat \<Rightarrow> string" where
  "hex_upper n = (if n < 16 then [hex_digit n] else hex_upper (n div 16) @ [hex_digit (n mod 16)])"
  by pat_completeness auto
termination
  by (relation "measure (\<lambda>n. n)") auto

declare hex_upper.simps [simp del]

text \<open>\<open>fmt.Sprintf("U+%04X", r)\<close>: upper-case hexadecimal, padded with zeros to four digits.\<close>

definition format_code_point :: "rune \<Rightarrow> string" where
  "format_code_point r =
    ''U+'' @ replicate (4 - length (hex_upper r)) (CHR ''0'') @ hex_upper r"


section \<open>What the scanner takes from outside this package\<close>

text \<open>
  The scanner calls the operating system, the Go library and the package \<open>match\<close>.
  They are the fields of an environment: the working directory and the file system as the
  calls \<open>os.Getwd\<close>, \<open>os.Stat\<close>, \<open>filepath.Abs\<close>, \<open>filepath.Rel\<close>, \<open>os.ReadFile\<close> and
  \<open>filepath.WalkDir\<close> see them; the Unicode tables behind \<open>unicode.In\<close>, \<open>unicode.IsPunct\<close>
  and \<open>unicode.IsSymbol\<close>; the library functions \<open>strings.TrimSpace\<close>, \<open>strings.ToLower\<close>
  and the verb \<open>%q\<close> of \<open>fmt\<close>, which depend on those tables; and \<open>match.Match\<close>.
  Every theorem below holds for every environment unless it fixes one.
\<close>

datatype error = SysError string | ReadFailed string error

text \<open>
  What \<open>filepath.WalkDir\<close> finds at a root: a path whose \<open>Lstat\<close> fails; an entry that is
  no directory, with its path and whether it is a regular file; or a directory with its
  path, the error of \<open>os.ReadDir\<close> if it has one, and the entries read, in lexical order.
\<close>

datatype wnode =
  WFail string error
  | WLeaf string bool
  | WDir string "error option" "wnode list"

record env =
  Getwd :: "error + string"
  Stat :: "string \<Rightarrow> error + bool"
  Abs :: "string \<Rightarrow> error + string"
  Rel :: "string \<Rightarrow> string \<Rightarrow> error + string"
  ReadFile :: "string \<Rightarrow> error + string"
  WalkTree :: "string \<Rightarrow> wnode"
  Match :: "string \<Rightarrow> string \<Rightarrow> bool"
  TrimSpace :: "string \<Rightarrow> string"
  ToLower :: "string \<Rightarrow> string"
  Quote :: "string \<Rightarrow> string"
  InHan :: "rune \<Rightarrow> bool"
  InHiragana :: "rune \<Rightarrow> bool"
  InKatakana :: "rune \<Rightarrow> bool"
  InHangul :: "rune \<Rightarrow> bool"
  InCyrillic :: "rune \<Rightarrow> bool"
  InArabic :: "rune \<Rightarrow> bool"
  InThai :: "rune \<Rightarrow> bool"
  InDevanagari :: "rune \<Rightarrow> bool"
  InHebrew :: "rune \<Rightarrow> bool"
  InGreek :: "rune \<Rightarrow> bool"
  InLatin :: "rune \<Rightarrow> bool"
  IsPunct :: "rune \<Rightarrow> bool"
  IsSymbol :: "rune \<Rightarrow> bool"

section \<open>The content scanner\<close>

fun matchPrefix :: "string \<Rightarrow> string list \<Rightarrow> string option" where
  "matchPrefix input [] = None"
| "matchPrefix input (p # ps) =
    (if p = [] then matchPrefix input ps
     else if HasPrefix input p then Some p
     else matchPrefix input ps)"

fun advance_runes :: "nat \<times> nat \<times> nat \<Rightarrow> rune list \<Rightarrow> nat \<times> nat \<times> nat" where
  "advance_runes (i, line, col) [] = (i, line, col)"
| "advance_runes (i, line, col) (r # rs) =
    (if r = 0x0A then advance_runes (nat (int i + RuneLen r), line + 1, 1) rs
     else advance_runes (nat (int i + RuneLen r), line, col + 1) rs)"

definition advanceByToken :: "nat \<Rightarrow> nat \<Rightarrow> nat \<Rightarrow> string \<Rightarrow> nat \<times> nat \<times> nat" where
  "advanceByToken i line col token = advance_runes (i, line, col) (range_runes token)"

definition shouldInspect :: "scanState \<Rightarrow> 'a Options_scheme \<Rightarrow> bool" where
  "shouldInspect state opts =
    (case state of
       stateLineComment \<Rightarrow> \<not> IgnoreComments opts
     | stateBlockComment \<Rightarrow> \<not> IgnoreComments opts
     | stateSingleString \<Rightarrow> \<not> IgnoreStrings opts
     | stateDoubleString \<Rightarrow> \<not> IgnoreStrings opts
     | stateBacktickString \<Rightarrow> \<not> IgnoreStrings opts
     | stateCode \<Rightarrow> True)"

definition isAllowedRune :: "rune \<Rightarrow> rune set \<Rightarrow> bool" where
  "isAllowedRune r allow =
    (if r = 0x0A \<or> r = 0x0D \<or> r = 0x09 then True
     else if 0x20 \<le> r \<and> r \<le> 0x7E then True
     else r \<in> allow)"

definition lineExcerpt :: "string list \<Rightarrow> nat \<Rightarrow> string" where
  "lineExcerpt lines line =
    (if line < 1 \<or> length lines < line then []
     else (let excerpt = TrimRight_cr (lines ! (line - 1)) in
           if 160 < length excerpt then take 160 excerpt @ ''...'' else excerpt))"

definition categoryForRune :: "'e env_scheme \<Rightarrow> rune \<Rightarrow> string" where
  "categoryForRune E r =
    (if InHan E r \<or> InHiragana E r \<or> InKatakana E r \<or> InHangul E r then ''CJK''
     else if InCyrillic E r then ''Cyrillic''
     else if InArabic E r then ''Arabic''
     else if InThai E r then ''Thai''
     else if InDevanagari E r then ''Devanagari''
     else if InHebrew E r then ''Hebrew''
     else if InGreek E r then ''Greek''
     else if InLatin E r then ''Latin Extended''
     else if IsPunct E r \<or> IsSymbol E r then ''Unicode Symbol''
     else ''Other Unicode'')"

text \<open>
  The local variables of the loop of \<open>scanContent\<close>: the byte index \<open>i\<close>, the line and
  column, the state and the escape flag.
\<close>

record cursor =
  cur_i :: nat
  cur_line :: nat
  cur_col :: nat
  cur_state :: scanState
  cur_escaped :: bool

definition enter_token :: "cursor \<Rightarrow> string \<Rightarrow> scanState \<Rightarrow> cursor" where
  "enter_token c token st =
    (case advanceByToken (cur_i c) (cur_line c) (cur_col c) token of
       (i, line, col) \<Rightarrow>
         \<lparr>cur_i = i, cur_line = line, cur_col = col, cur_state = st, cur_escaped = False\<rparr>)"

definition enter_byte :: "cursor \<Rightarrow> scanState \<Rightarrow> bool \<Rightarrow> cursor" where
  "enter_byte c st esc =
    c\<lparr>cur_i := cur_i c + 1, cur_col := cur_col c + 1, cur_state := st, cur_escaped := esc\<rparr>"

text \<open>
  The \<open>switch state\<close> at the head of the loop body: the cursor after a branch that ends in
  \<open>continue\<close>, or \<open>None\<close> when control falls through to the decoding of a rune.
\<close>

definition scan_transition :: "string \<Rightarrow> syntaxRules \<Rightarrow> cursor \<Rightarrow> cursor option" where
  "scan_transition text syntax c =
    (let i = cur_i c; rest = drop i text; b = text ! i in
     case cur_state c of
       stateCode \<Rightarrow>
         (if blockStart syntax \<noteq> [] \<and> HasPrefix rest (blockStart syntax)
          then Some (enter_token c (blockStart syntax) stateBlockComment)
          else (case matchPrefix rest (lineComments syntax) of
                  Some token \<Rightarrow> Some (enter_token c token stateLineComment)
                | None \<Rightarrow>
                    (if strings syntax then
                       (if b = CHR 0x27 then Some (enter_byte c stateSingleString False)
                        else if b = CHR 0x22 then Some (enter_byte c stateDoubleString False)
                        else if b = CHR 0x60 \<and> backtick syntax
                        then Some (enter_byte c stateBacktickString False)
                        else None)
                     else None)))
     | stateLineComment \<Rightarrow>
         (if b = CHR 0x0A
          then Some \<lparr>cur_i = i + 1, cur_line = cur_line c + 1, cur_col = 1,
                      cur_state = stateCode, cur_escaped = False\<rparr>
          else None)
     | stateBlockComment \<Rightarrow>
         (if blockEnd syntax \<noteq> [] \<and> HasPrefix rest (blockEnd syntax)
          then Some (enter_token c (blockEnd syntax) stateCode)
          else None)
     | stateSingleString \<Rightarrow>
         (if \<not> cur_escaped c then
            (if b = CHR 0x5C then Some (enter_byte c stateSingleString True)
             else if b = CHR 0x27 then Some (enter_byte c stateCode (cur_escaped c))
             else None)
          else None)
     | stateDoubleString \<Rightarrow>
         (if \<not> cur_escaped c then
            (if b = CHR 0x5C then Some (enter_byte c stateDoubleString True)
             else if b = CHR 0x22 then Some (enter_byte c stateCode (cur_escaped c))
             else None)
          else None)
     | stateBacktickString \<Rightarrow>
         (if b = CHR 0x60 then Some (enter_byte c stateCode (cur_escaped c)) else None))"

definition invalid_finding :: "string \<Rightarrow> string list \<Rightarrow> 'a Options_scheme \<Rightarrow> cursor \<Rightarrow> Finding" where
  "invalid_finding path lines opts c =
    \<lparr>Path = path, Line = cur_line c, Column = cur_col c, Character = ''?'',
     CodePoint = ''invalid-utf8'', Category = ''Invalid UTF-8'',
     Severity = DefaultSeverity opts,
     Message = ''Detected invalid UTF-8 byte sequence'',
     Excerpt = lineExcerpt lines (cur_line c)\<rparr>"

definition rune_finding ::
  "'e env_scheme \<Rightarrow> string \<Rightarrow> string list \<Rightarrow> 'a Options_scheme \<Rightarrow> cursor \<Rightarrow> rune \<Rightarrow> Finding" where
  "rune_finding E path lines opts c r =
    (let category = categoryForRune E r; codePoint = format_code_point r in
     \<lparr>Path = path, Line = cur_line c, Column = cur_col c, Character = string_of_rune r,
      CodePoint = codePoint, Category = category, Severity = DefaultSeverity opts,
      Message = ''Detected '' @ category @ '' character '' @ Quote E (string_of_rune r)
                @ '' ('' @ codePoint @ '')'',
      Excerpt = lineExcerpt lines (cur_line c)\<rparr>)"

text \<open>
  The rest of the loop body: decode one rune at \<open>text[i:]\<close>, report it if it is inspected
  and not allowed, and move on by its width, or by one byte if the encoding is invalid.
  The result is the cursor and the findings appended in this iteration.
\<close>

definition scan_inspect ::
  "'e env_scheme \<Rightarrow> string \<Rightarrow> string \<Rightarrow> string list \<Rightarrow> 'a Options_scheme \<Rightarrow> cursor
    \<Rightarrow> cursor \<times> Finding list" where
  "scan_inspect E path text lines opts c =
    (case DecodeRuneInString (drop (cur_i c) text) of
       (r, width) \<Rightarrow>
         if r = RuneError \<and> width = 1 then
           (c\<lparr>cur_i := cur_i c + 1, cur_col := cur_col c + 1, cur_escaped := False\<rparr>,
            if shouldInspect (cur_state c) opts then [invalid_finding path lines opts c] else [])
         else
           ((if r = 0x0A then
               c\<lparr>cur_i := cur_i c + width, cur_line := cur_line c + 1, cur_col := 1,
                 cur_state := (if cur_state c = stateLineComment then stateCode else cur_state c),
                 cur_escaped := False\<rparr>
             else c\<lparr>cur_i := cur_i c + width, cur_col := cur_col c + 1, cur_escaped := False\<rparr>),
            if shouldInspect (cur_state c) opts \<and> \<not> isAllowedRune r (AllowRunes opts)
            then [rune_finding E path lines opts c r] else []))"

definition scan_step ::
  "'e env_scheme \<Rightarrow> string \<Rightarrow> string \<Rightarrow> string list \<Rightarrow> syntaxRules \<Rightarrow> 'a Options_scheme
    \<Rightarrow> cursor \<Rightarrow> cursor \<times> Finding list" where
  "scan_step E path text lines syntax opts c =
    (case scan_transition text syntax c of
       Some c' \<Rightarrow> (c', [])
     | None \<Rightarrow> scan_inspect E path text lines opts c)"

section \<open>Progress of the scanner\<close>

text \<open>
  A rune that \<open>utf8.DecodeRuneInString\<close> returns is a Unicode scalar value, so
  \<open>utf8.RuneLen\<close> of it is at least one.
\<close>

definition valid_rune :: "rune \<Rightarrow> bool" where
  "valid_rune r = (r \<le> 0x10FFFF \<and> \<not> (0xD800 \<le> r \<and> r \<le> 0xDFFF))"

lemma mod_offset: "k * m \<le> (b::nat) \<Longrightarrow> b < k * m + m \<Longrightarrow> b mod m = b - k * m"
proof -
  assume a: "k * m \<le> b" "b < k * m + m"
  then obtain d where d: "b = k * m + d" using le_Suc_ex by blast
  with a have "d < m" by simp
  then show ?thesis unfolding d by simp
qed

lemma cont_mod: "0x80 \<le> (b::nat) \<Longrightarrow> b \<le> 0xBF \<Longrightarrow> b mod 64 = b - 128"
  using mod_offset[of 2 64 b] by simp

lemma lead3_mod: "0xE0 \<le> (b::nat) \<Longrightarrow> b < 0xF0 \<Longrightarrow> b mod 16 = b - 224"
  using mod_offset[of 14 16 b] by simp

lemma lead4_mod: "0xF0 \<le> (b::nat) \<Longrightarrow> b \<le> 0xF4 \<Longrightarrow> b mod 8 = b - 240"
  using mod_offset[of 30 8 b] by simp

lemma valid_rune2: "valid_rune ((s0 mod 32) * 64 + s1 mod 64)"
proof -
  have "s0 mod 32 < 32" "s1 mod 64 < 64" by simp_all
  then show ?thesis unfolding valid_rune_def by linarith
qed

lemma valid_rune3:
  assumes "0xE0 \<le> s0" "s0 < 0xF0" "0x80 \<le> s1" "s1 \<le> 0xBF" "s0 = 0xED \<longrightarrow> s1 \<le> 0x9F"
  shows "valid_rune ((s0 mod 16) * 4096 + (s1 mod 64) * 64 + s2 mod 64)"
proof -
  have a: "s0 mod 16 = s0 - 224" using assms(1,2) by (rule lead3_mod)
  have b: "s1 mod 64 = s1 - 128" using assms(3,4) by (rule cont_mod)
  have c: "s2 mod 64 < 64" by simp
  consider "s0 \<le> 236" | "s0 = 237" | "238 \<le> s0" by linarith
  then show ?thesis
    unfolding valid_rune_def a b using assms c by cases auto
qed

lemma valid_rune4:
  assumes "0xF0 \<le> s0" "s0 \<le> 0xF4" "0x80 \<le> s1" "s1 \<le> 0xBF"
    "s0 = 0xF4 \<longrightarrow> s1 \<le> 0x8F" "s0 = 0xF0 \<longrightarrow> 0x90 \<le> s1"
  shows "valid_rune ((s0 mod 8) * 262144 + (s1 mod 64) * 4096 + (s2 mod 64) * 64 + s3 mod 64)"
proof -
  have a: "s0 mod 8 = s0 - 240" using assms(1,2) by (rule lead4_mod)
  have b: "s1 mod 64 = s1 - 128" using assms(3,4) by (rule cont_mod)
  have c: "s2 mod 64 < 64" "s3 mod 64 < 64" by simp_all
  consider "s0 = 240" | "241 \<le> s0" "s0 \<le> 243" | "s0 = 244" using assms(1,2) by linarith
  then show ?thesis
    unfolding valid_rune_def a b using assms c by cases auto
qed

lemma valid_rune_RuneError: "valid_rune RuneError"
  by (simp add: valid_rune_def RuneError_def)

lemma valid_rune_ascii: "r < 0x80 \<Longrightarrow> valid_rune r"
  by (simp add: valid_rune_def)

text \<open>The decoder as a relation between the leading bytes and the result.\<close>

lemma Decode_cases:
  obtains (empty) "s = []"
  | (invalid) "s \<noteq> []" "DecodeRuneInString s = (RuneError, 1)"
  | (one) c0 cs where "s = c0 # cs" "of_char c0 < (0x80::nat)"
      "DecodeRuneInString s = (of_char c0, 1)"
  | (two) c0 c1 cs where "s = c0 # c1 # cs"
      "0xC2 \<le> (of_char c0 :: nat)" "(of_char c0 :: nat) < 0xE0" "is_cont (of_char c1)"
      "DecodeRuneInString s = (((of_char c0 :: nat) mod 32) * 64 + (of_char c1 :: nat) mod 64, 2)"
  | (three) c0 c1 c2 cs where "s = c0 # c1 # c2 # cs"
      "0xE0 \<le> (of_char c0 :: nat)" "(of_char c0 :: nat) < 0xF0"
      "0x80 \<le> (of_char c1 :: nat)" "(of_char c1 :: nat) \<le> 0xBF"
      "(of_char c0 :: nat) = 0xED \<longrightarrow> (of_char c1 :: nat) \<le> 0x9F"
      "(of_char c0 :: nat) = 0xE0 \<longrightarrow> 0xA0 \<le> (of_char c1 :: nat)" "is_cont (of_char c2)"
      "DecodeRuneInString s = (((of_char c0 :: nat) mod 16) * 4096 + ((of_char c1 :: nat) mod 64) * 64
          + (of_char c2 :: nat) mod 64, 3)"
  | (four) c0 c1 c2 c3 cs where "s = c0 # c1 # c2 # c3 # cs"
      "0xF0 \<le> (of_char c0 :: nat)" "(of_char c0 :: nat) \<le> 0xF4"
      "0x80 \<le> (of_char c1 :: nat)" "(of_char c1 :: nat) \<le> 0xBF"
      "(of_char c0 :: nat) = 0xF4 \<longrightarrow> (of_char c1 :: nat) \<le> 0x8F"
      "(of_char c0 :: nat) = 0xF0 \<longrightarrow> 0x90 \<le> (of_char c1 :: nat)"
      "is_cont (of_char c2)" "is_cont (of_char c3)"
      "DecodeRuneInString s = (((of_char c0 :: nat) mod 8) * 262144 + ((of_char c1 :: nat) mod 64) * 4096
          + ((of_char c2 :: nat) mod 64) * 64 + (of_char c3 :: nat) mod 64, 4)"
proof (cases s)
  case Nil
  then show ?thesis by (rule empty)
next
  case (Cons c0 cs)
  define s0 where "s0 = (of_char c0 :: nat)"
  consider (a) "s0 < 0x80" | (bad) "0x80 \<le> s0" "s0 < 0xC2 \<or> 0xF4 < s0"
    | (b2) "0xC2 \<le> s0" "s0 < 0xE0" | (b3) "0xE0 \<le> s0" "s0 < 0xF0"
    | (b4) "0xF0 \<le> s0" "s0 \<le> 0xF4"
    by linarith
  then show ?thesis
  proof cases
    case a
    then show ?thesis using Cons by (intro one[of c0 cs]) (simp_all add: s0_def)
  next
    case bad
    then show ?thesis using Cons by (intro invalid) (auto simp: s0_def)
  next
    case b2
    show ?thesis
    proof (cases cs)
      case Nil
      with b2 Cons show ?thesis by (intro invalid) (simp_all add: s0_def)
    next
      case (Cons c1 cs1)
      show ?thesis
      proof (cases "is_cont (of_char c1)")
        case True
        with b2 Cons \<open>s = c0 # cs\<close> show ?thesis
          by (intro two[of c0 c1 cs1]) (simp_all add: s0_def)
      next
        case False
        with b2 Cons \<open>s = c0 # cs\<close> show ?thesis
          by (intro invalid) (simp_all add: s0_def)
      qed
    qed
  next
    case b3
    consider (short) "cs = [] \<or> (\<exists>c1. cs = [c1])" | (long) c1 c2 cs2 where "cs = c1 # c2 # cs2"
      by (cases cs; cases "tl cs") auto
    then show ?thesis
    proof cases
      case short
      with b3 Cons show ?thesis by (intro invalid) (auto simp: s0_def)
    next
      case long
      define bad1 where "bad1 \<longleftrightarrow> (of_char c1 :: nat) < (if s0 = 0xE0 then 0xA0 else 0x80)
        \<or> (if s0 = 0xED then 0x9F else 0xBF) < (of_char c1 :: nat)"
      show ?thesis
      proof (cases "bad1 \<or> \<not> is_cont (of_char c2)")
        case True
        with b3 Cons long show ?thesis
          by (intro invalid) (auto simp: s0_def bad1_def Let_def)
      next
        case False
        then have ok: "\<not> bad1" "is_cont (of_char c2)" by simp_all
        have r: "0x80 \<le> (of_char c1 :: nat)" "(of_char c1 :: nat) \<le> 0xBF"
          "s0 = 0xED \<longrightarrow> (of_char c1 :: nat) \<le> 0x9F"
          "s0 = 0xE0 \<longrightarrow> 0xA0 \<le> (of_char c1 :: nat)"
          using ok(1) unfolding bad1_def by (auto split: if_splits)
        have d: "DecodeRuneInString s = ((s0 mod 16) * 4096 + ((of_char c1 :: nat) mod 64) * 64
          + (of_char c2 :: nat) mod 64, 3)"
          using b3 ok unfolding Cons long bad1_def
          by (simp add: s0_def [symmetric] Let_def del: One_nat_def)
        show ?thesis
          using b3 r d ok(2) Cons long unfolding s0_def
          by (intro three[of c0 c1 c2 cs2]) simp_all
      qed
    qed
  next
    case b4
    consider (short) "length cs < 3" | (long) c1 c2 c3 cs3 where "cs = c1 # c2 # c3 # cs3"
      by (cases cs; cases "tl cs"; cases "tl (tl cs)") auto
    then show ?thesis
    proof cases
      case short
      then have "cs = [] \<or> (\<exists>c1. cs = [c1]) \<or> (\<exists>c1 c2. cs = [c1, c2])"
        by (cases cs; cases "tl cs"; cases "tl (tl cs)") auto
      with b4 Cons show ?thesis by (intro invalid) (auto simp: s0_def)
    next
      case long
      define bad1 where "bad1 \<longleftrightarrow> (of_char c1 :: nat) < (if s0 = 0xF0 then 0x90 else 0x80)
        \<or> (if s0 = 0xF4 then 0x8F else 0xBF) < (of_char c1 :: nat)"
      show ?thesis
      proof (cases "bad1 \<or> \<not> is_cont (of_char c2) \<or> \<not> is_cont (of_char c3)")
        case True
        with b4 Cons long show ?thesis
          by (intro invalid) (auto simp: s0_def bad1_def Let_def)
      next
        case False
        then have ok: "\<not> bad1" "is_cont (of_char c2)" "is_cont (of_char c3)" by simp_all
        have r: "0x80 \<le> (of_char c1 :: nat)" "(of_char c1 :: nat) \<le> 0xBF"
          "s0 = 0xF4 \<longrightarrow> (of_char c1 :: nat) \<le> 0x8F"
          "s0 = 0xF0 \<longrightarrow> 0x90 \<le> (of_char c1 :: nat)"
          using ok(1) unfolding bad1_def by (auto split: if_splits)
        have d: "DecodeRuneInString s = ((s0 mod 8) * 262144 + ((of_char c1 :: nat) mod 64) * 4096
          + ((of_char c2 :: nat) mod 64) * 64 + (of_char c3 :: nat) mod 64, 4)"
          using b4 ok unfolding Cons long bad1_def
          by (simp add: s0_def [symmetric] Let_def del: One_nat_def)
        show ?thesis
          using b4 r d ok(2,3) Cons long unfolding s0_def
          by (intro four[of c0 c1 c2 c3 cs3]) simp_all
      qed
    qed
  qed
qed

lemma valid_rune_DecodeRuneInString: "valid_rune (fst (DecodeRuneInString s))"
  by (cases s rule: Decode_cases)
    (simp_all add: valid_rune_RuneError valid_rune_ascii valid_rune2 valid_rune3 valid_rune4)

lemma RuneLen_pos: "valid_rune r \<Longrightarrow> 1 \<le> RuneLen r"
  by (auto simp: valid_rune_def RuneLen_def)

lemma range_runes_valid: "r \<in> set (range_runes s) \<Longrightarrow> valid_rune r"
proof (induction s rule: range_runes.induct)
  case (1 s)
  show ?case
  proof (cases "s = []")
    case True
    with "1.prems" show ?thesis by (simp add: range_runes.simps)
  next
    case False
    with "1.prems" have "r = fst (DecodeRuneInString s)
        \<or> r \<in> set (range_runes (drop (snd (DecodeRuneInString s)) s))"
      by (subst (asm) range_runes.simps) simp
    then show ?thesis
      using "1.IH"[OF False] valid_rune_DecodeRuneInString by auto
  qed
qed

lemma range_runes_nonempty: "s \<noteq> [] \<Longrightarrow> range_runes s \<noteq> []"
  by (subst range_runes.simps) simp

lemma advance_runes_grows:
  "(\<And>r. r \<in> set rs \<Longrightarrow> valid_rune r) \<Longrightarrow> i + length rs \<le> fst (advance_runes (i, line, col) rs)"
proof (induction rs arbitrary: i line col)
  case Nil
  then show ?case by simp
next
  case (Cons r rs)
  define j where "j = nat (int i + RuneLen r)"
  have "1 \<le> RuneLen r" using Cons.prems by (simp add: RuneLen_pos)
  then have i: "i + 1 \<le> j" unfolding j_def by linarith
  have ih: "j + length rs \<le> fst (advance_runes (j, l', c') rs)" for l' c'
    using Cons.IH Cons.prems by simp
  have "fst (advance_runes (i, line, col) (r # rs))
      = fst (advance_runes (j, if r = 0x0A then line + 1 else line, if r = 0x0A then 1 else col + 1) rs)"
    by (simp add: j_def)
  moreover have "i + length (r # rs) \<le> j + length rs" using i by simp
  ultimately show ?case using ih le_trans by presburger
qed

lemma advanceByToken_advances:
  "token \<noteq> [] \<Longrightarrow> i < fst (advanceByToken i line col token)"
proof -
  assume "token \<noteq> []"
  then have "range_runes token \<noteq> []" by (rule range_runes_nonempty)
  then have "1 \<le> length (range_runes token)" by (cases "range_runes token") simp_all
  moreover have "i + length (range_runes token) \<le> fst (advanceByToken i line col token)"
    unfolding advanceByToken_def by (rule advance_runes_grows) (rule range_runes_valid)
  ultimately show ?thesis by linarith
qed

lemma matchPrefix_Some:
  "matchPrefix input ps = Some p \<Longrightarrow> p \<noteq> [] \<and> HasPrefix input p \<and> p \<in> set ps"
  by (induction ps) (auto split: if_splits)

lemma enter_token_advances: "token \<noteq> [] \<Longrightarrow> cur_i c < cur_i (enter_token c token st)"
  using advanceByToken_advances[of token "cur_i c" "cur_line c" "cur_col c"]
  by (auto simp: enter_token_def split: prod.splits)

lemma enter_byte_advances: "cur_i c < cur_i (enter_byte c st esc)"
  by (simp add: enter_byte_def)

lemma scan_transition_advances:
  "scan_transition text syntax c = Some c' \<Longrightarrow> cur_i c < cur_i c'"
  unfolding scan_transition_def Let_def
  by (cases "cur_state c")
    (auto split: if_splits option.splits
      dest!: matchPrefix_Some intro: enter_token_advances enter_byte_advances)

lemma scan_inspect_advances:
  "cur_i c < length text \<Longrightarrow> cur_i c < cur_i (fst (scan_inspect E path text lines opts c))"
proof -
  assume "cur_i c < length text"
  then have "drop (cur_i c) text \<noteq> []" by simp
  then have "1 \<le> snd (DecodeRuneInString (drop (cur_i c) text))"
    by (rule DecodeRuneInString_size_pos)
  then show ?thesis
    by (auto simp: scan_inspect_def split: prod.splits)
qed

lemma scan_step_advances:
  "cur_i c < length text \<Longrightarrow> cur_i c < cur_i (fst (scan_step E path text lines syntax opts c))"
  by (auto simp: scan_step_def scan_transition_advances scan_inspect_advances split: option.splits)


text \<open>
  The loop \<open>for i := 0; i < len(text); { ... }\<close> of \<open>scanContent\<close>. Each iteration moves
  the byte index forward, which is the termination argument.
\<close>

function scan_loop ::
  "env \<Rightarrow> string \<Rightarrow> string \<Rightarrow> string list \<Rightarrow> syntaxRules \<Rightarrow> Options \<Rightarrow> cursor
    \<Rightarrow> Finding list \<Rightarrow> Finding list" where
  "scan_loop E path text lines syntax opts c findings =
    (if cur_i c < length text
     then scan_loop E path text lines syntax opts
            (fst (scan_step E path text lines syntax opts c))
            (findings @ snd (scan_step E path text lines syntax opts c))
     else findings)"
  by pat_completeness auto
termination
  by (relation "measure (\<lambda>(E, path, text, lines, syntax, opts, c, findings). length text - cur_i c)")
    (auto simp: scan_step_advances diff_less_mono2)

declare scan_loop.simps [simp del]

definition start_cursor :: cursor where
  "start_cursor =
    \<lparr>cur_i = 0, cur_line = 1, cur_col = 1, cur_state = stateCode, cur_escaped = False\<rparr>"

definition scanContent :: "env \<Rightarrow> string \<Rightarrow> string \<Rightarrow> syntaxRules \<Rightarrow> Options \<Rightarrow> Finding list" where
  "scanContent E path data syntax opts =
    scan_loop E path data (Split_nl data) syntax opts start_cursor []"

text \<open>
  The same loop with a bound on the number of iterations, to state how many iterations
  the loop needs: the cursor and the findings after at most \<open>n\<close> iterations.
\<close>

fun scan_iterate ::
  "env \<Rightarrow> string \<Rightarrow> string \<Rightarrow> string list \<Rightarrow> syntaxRules \<Rightarrow> Options \<Rightarrow> nat
    \<Rightarrow> cursor \<times> Finding list \<Rightarrow> cursor \<times> Finding list" where
  "scan_iterate E path text lines syntax opts 0 cf = cf"
| "scan_iterate E path text lines syntax opts (Suc n) (c, findings) =
    (if cur_i c < length text
     then scan_iterate E path text lines syntax opts n
            (fst (scan_step E path text lines syntax opts c),
             findings @ snd (scan_step E path text lines syntax opts c))
     else (c, findings))"

section \<open>The scan orchestrator\<close>

subsection \<open>path/filepath and sort\<close>

text \<open>
  The program runs on macOS or Linux, where the separator is the slash: \<open>filepath.ToSlash\<close>
  returns its argument. \<open>filepath.Ext\<close> is the suffix of the last path element from its
  last dot on, \<open>filepath.Base\<close> the last path element, trailing slashes removed.
\<close>

definition ToSlash :: "string \<Rightarrow> string" where
  "ToSlash path = path"

definition last_element :: "string \<Rightarrow> string" where
  "last_element path = rev (takeWhile (\<lambda>c. c \<noteq> CHR ''/'') (rev path))"

definition Ext :: "string \<Rightarrow> string" where
  "Ext path =
    (let e = last_element path in
     if CHR ''.'' \<in> set e then CHR ''.'' # rev (takeWhile (\<lambda>c. c \<noteq> CHR ''.'') (rev e)) else [])"

definition Base :: "string \<Rightarrow> string" where
  "Base path =
    (if path = [] then ''.''
     else (let b = last_element (rev (dropWhile (\<lambda>c. c = CHR ''/'') (rev path))) in
           if b = [] then ''/'' else b))"

text \<open>
  \<open>sort.Slice(xs, less)\<close> leaves \<open>xs\<close> sorted by \<open>less\<close>. It is not stable: elements of
  which neither is less than the other may end in any order. The model is the insertion
  sort, which keeps their order.
\<close>

fun insert_by :: "('a \<Rightarrow> 'a \<Rightarrow> bool) \<Rightarrow> 'a \<Rightarrow> 'a list \<Rightarrow> 'a list" where
  "insert_by lt x [] = [x]"
| "insert_by lt x (y # ys) = (if lt y x then y # insert_by lt x ys else x # y # ys)"

definition sort_Slice :: "('a \<Rightarrow> 'a \<Rightarrow> bool) \<Rightarrow> 'a list \<Rightarrow> 'a list" where
  "sort_Slice lt xs = foldr (insert_by lt) xs []"

text \<open>
  \<open>filepath.WalkDir(root, fn)\<close>, after the source of the library: \<open>fn\<close> is called on the
  root and then on every entry below it in lexical order; a directory is read after \<open>fn\<close>
  returned nil for it, and \<open>fn\<close> is called on it a second time if reading it fails. \<open>fn\<close>
  returns nil, \<open>filepath.SkipDir\<close> or another error. It takes the path, whether the entry is a
  directory and whether it is a regular file, and the error; for a root whose \<open>Lstat\<close>
  fails the entry is nil, which is given as an entry that is neither.
\<close>

datatype walk_ret = WNil | WSkipDir | WErr error

fun filepath_walkDir ::
    "(string \<Rightarrow> bool \<Rightarrow> bool \<Rightarrow> error option \<Rightarrow> 's \<Rightarrow> 's \<times> walk_ret) \<Rightarrow> wnode \<Rightarrow> 's \<Rightarrow> 's \<times> walk_ret"
  and filepath_walkDir_entries ::
    "(string \<Rightarrow> bool \<Rightarrow> bool \<Rightarrow> error option \<Rightarrow> 's \<Rightarrow> 's \<times> walk_ret) \<Rightarrow> wnode list \<Rightarrow> 's
      \<Rightarrow> 's \<times> walk_ret" where
  "filepath_walkDir fn (WFail path e) s = fn path False False (Some e) s"
| "filepath_walkDir fn (WLeaf path regular) s = fn path False regular None s"
| "filepath_walkDir fn (WDir path readErr entries) s =
    (case fn path True False None s of
       (s1, WSkipDir) \<Rightarrow> (s1, WNil)
     | (s1, WErr e) \<Rightarrow> (s1, WErr e)
     | (s1, WNil) \<Rightarrow>
         (case readErr of
            None \<Rightarrow> filepath_walkDir_entries fn entries s1
          | Some e \<Rightarrow>
              (case fn path True False (Some e) s1 of
                 (s2, WSkipDir) \<Rightarrow> (s2, WNil)
               | (s2, WErr e') \<Rightarrow> (s2, WErr e')
               | (s2, WNil) \<Rightarrow> filepath_walkDir_entries fn entries s2)))"
| "filepath_walkDir_entries fn [] s = (s, WNil)"
| "filepath_walkDir_entries fn (d # ds) s =
    (case filepath_walkDir fn d s of
       (s1, WSkipDir) \<Rightarrow> (s1, WNil)
     | (s1, WErr e) \<Rightarrow> (s1, WErr e)
     | (s1, WNil) \<Rightarrow> filepath_walkDir_entries fn ds s1)"

definition filepath_WalkDir ::
  "(string \<Rightarrow> bool \<Rightarrow> bool \<Rightarrow> error option \<Rightarrow> 's \<Rightarrow> 's \<times> walk_ret) \<Rightarrow> wnode \<Rightarrow> 's
    \<Rightarrow> 's \<times> error option" where
  "filepath_WalkDir fn tree s =
    (case filepath_walkDir fn tree s of
       (s1, WErr e) \<Rightarrow> (s1, Some e)
     | (s1, _) \<Rightarrow> (s1, None))"

subsection \<open>Filters\<close>

fun matches_loop :: "env \<Rightarrow> string \<Rightarrow> string \<Rightarrow> string list \<Rightarrow> bool" where
  "matches_loop E npath base [] = False"
| "matches_loop E npath base (p0 # ps) =
    (let p = TrimSpace E p0 in
     if p = [] then matches_loop E npath base ps
     else if Match E p npath \<or> Match E p base then True
     else (let p' = ToSlash p in
           if HasSuffix p' ''/**'' \<and>
              (let prefix = TrimSuffix p' ''/**'' in
               npath = prefix \<or> HasPrefix npath (prefix @ ''/''))
           then True
           else matches_loop E npath base ps))"

definition matches :: "env \<Rightarrow> string \<Rightarrow> string list \<Rightarrow> bool" where
  "matches E path patterns = matches_loop E (ToSlash path) (Base (ToSlash path)) patterns"

definition isIncluded :: "env \<Rightarrow> string \<Rightarrow> string list \<Rightarrow> bool" where
  "isIncluded E path include = (if include = [] then True else matches E path include)"

definition isExcluded :: "env \<Rightarrow> string \<Rightarrow> string list \<Rightarrow> bool" where
  "isExcluded E path exclude =
    (if exclude = [] then False
     else if matches E path exclude then True
     else matches E (path @ ''/'') exclude)"

definition isAllowedFile :: "env \<Rightarrow> string \<Rightarrow> string list \<Rightarrow> bool" where
  "isAllowedFile E path patterns = (if patterns = [] then False else matches E path patterns)"

definition displayPath :: "env \<Rightarrow> string \<Rightarrow> string \<Rightarrow> string" where
  "displayPath E cwd path =
    (case Abs E path of
       Inl err \<Rightarrow> ToSlash path
     | Inr absp \<Rightarrow>
         (case Rel E cwd absp of
            Inl err \<Rightarrow> ToSlash absp
          | Inr rel \<Rightarrow>
              if HasPrefix rel ''..'' then ToSlash absp
              else if rel = ''.'' then rel
              else ToSlash rel))"

subsection \<open>Binary detection and syntax profiles\<close>

text \<open>
  \<open>isBinary\<close> compares \<open>float64(control)/float64(len(sample))\<close> with \<open>0.30\<close>. Both numbers
  are at most 8192 and exact as floats. The quotient, rounded, is greater than the float
  nearest to 0.30 exactly if \<open>control/len\<close> is greater than 3/10 as a fraction: for
  \<open>control/len = 3/10\<close> the division gives that very float, and any other fraction with a
  denominator of at most 8192 differs from 3/10 by at least 1/81920, far more than a
  rounding error. The comparison is therefore \<open>3 * len < 10 * control\<close> in integers.
\<close>

definition isBinary :: "string \<Rightarrow> bool" where
  "isBinary data =
    (if length data = 0 then False
     else (let sample = (if 8192 < length data then take 8192 data else data) in
           if CHR 0x00 \<in> set sample then True
           else (let control = length (filter (\<lambda>b.
                         \<not> (b = CHR 0x0A \<or> b = CHR 0x0D \<or> b = CHR 0x09)
                         \<and> ((of_char b :: nat) < 0x20 \<or> b = CHR 0x7F)) sample)
                 in 3 * length sample < 10 * control)))"

definition c_family :: "string list" where
  "c_family = [''.go'', ''.js'', ''.jsx'', ''.ts'', ''.tsx'', ''.java'', ''.c'', ''.cc'', ''.cpp'',
    ''.h'', ''.hpp'', ''.cs'', ''.swift'', ''.kt'', ''.kts'', ''.rs'', ''.php'']"

definition hash_family :: "string list" where
  "hash_family = [''.py'', ''.rb'', ''.sh'', ''.bash'', ''.zsh'', ''.yaml'', ''.yml'', ''.toml'',
    ''.ini'', ''.conf'', ''.properties'']"

definition syntaxForPath :: "env \<Rightarrow> string \<Rightarrow> syntaxRules" where
  "syntaxForPath E path =
    (let ext = ToLower E (Ext path); base = ToLower E (Base path) in
     if ext \<in> set c_family then
       \<lparr>lineComments = [''//''], blockStart = ''/*'', blockEnd = ''*/'', strings = True,
        backtick = True\<rparr>
     else if ext \<in> set hash_family then
       \<lparr>lineComments = [''#''], blockStart = [], blockEnd = [], strings = True, backtick = False\<rparr>
     else if ext = ''.sql'' then
       \<lparr>lineComments = [''--''], blockStart = ''/*'', blockEnd = ''*/'', strings = True,
        backtick = False\<rparr>
     else if ext = ''.lua'' then
       \<lparr>lineComments = [''--''], blockStart = [], blockEnd = [], strings = True, backtick = False\<rparr>
     else if base = ''dockerfile'' \<or> HasSuffix base ''.dockerfile'' then
       \<lparr>lineComments = [''#''], blockStart = [], blockEnd = [], strings = True, backtick = False\<rparr>
     else
       \<lparr>lineComments = [], blockStart = [], blockEnd = [], strings = False, backtick = False\<rparr>)"

subsection \<open>Scan\<close>

text \<open>
  What \<open>Scan\<close> shares with \<open>walkDir\<close> and \<open>scanFile\<close>: the map \<open>visited\<close> (a set of absolute
  paths) and the result under construction. \<open>read_log\<close> is not a variable of the program:
  it records the calls of \<open>os.ReadFile\<close>, in order, so that theorems can speak about which
  files were read. The functions return the state with the error, \<open>None\<close> for nil: what
  they changed before an error stays changed, as in the program.
\<close>

record scan_state =
  visited :: "string set"
  res :: Result
  read_log :: "string list"

definition add_skipped :: "scan_state \<Rightarrow> string \<Rightarrow> string \<Rightarrow> scan_state" where
  "add_skipped st display reason =
    st\<lparr>res := (res st)\<lparr>SkippedFiles :=
      SkippedFiles (res st) @ [\<lparr>SkippedPath = display, Reason = reason\<rparr>]\<rparr>\<rparr>"

definition add_scanned :: "scan_state \<Rightarrow> string \<Rightarrow> Finding list \<Rightarrow> scan_state" where
  "add_scanned st display findings =
    st\<lparr>res := (res st)\<lparr>ScannedFiles := ScannedFiles (res st) @ [display],
      Findings := (if 0 < length findings then Findings (res st) @ findings
                   else Findings (res st))\<rparr>\<rparr>"

definition scanFile ::
  "env \<Rightarrow> string \<Rightarrow> string \<Rightarrow> Options \<Rightarrow> scan_state \<Rightarrow> scan_state \<times> error option" where
  "scanFile E path cwd opts st =
    (case Abs E path of
       Inl err \<Rightarrow> (st, Some err)
     | Inr absp \<Rightarrow>
         if absp \<in> visited st then (st, None)
         else
           (let st1 = st\<lparr>visited := insert absp (visited st)\<rparr>;
                display = displayPath E cwd absp in
            if \<not> isIncluded E display (Include opts) then (st1, None)
            else if isExcluded E display (Exclude opts) then (st1, None)
            else if isAllowedFile E display (AllowFilePatterns opts)
            then (add_skipped st1 display ''allowed by file pattern'', None)
            else
              (let st2 = st1\<lparr>read_log := read_log st1 @ [absp]\<rparr> in
               case ReadFile E absp of
                 Inl err \<Rightarrow> (st2, Some (ReadFailed display err))
               | Inr data \<Rightarrow>
                   if isBinary data then (add_skipped st2 display ''binary file'', None)
                   else (add_scanned st2 display
                           (scanContent E display data (syntaxForPath E display) opts), None))))"

text \<open>The function literal that \<open>walkDir\<close> passes to \<open>filepath.WalkDir\<close>.\<close>

definition walk_fn ::
  "env \<Rightarrow> string \<Rightarrow> Options \<Rightarrow> string \<Rightarrow> bool \<Rightarrow> bool \<Rightarrow> error option \<Rightarrow> scan_state
    \<Rightarrow> scan_state \<times> walk_ret" where
  "walk_fn E cwd opts path isDir isRegular walkErr st =
    (case walkErr of
       Some err \<Rightarrow> (st, WErr err)
     | None \<Rightarrow>
         (let display = displayPath E cwd path in
          if isDir then
            (if display \<noteq> ''.'' \<and> isExcluded E display (Exclude opts) then (st, WSkipDir)
             else (st, WNil))
          else if \<not> isRegular then (st, WNil)
          else (case scanFile E path cwd opts st of
                  (st', None) \<Rightarrow> (st', WNil)
                | (st', Some err) \<Rightarrow> (st', WErr err))))"

definition walkDir ::
  "env \<Rightarrow> string \<Rightarrow> string \<Rightarrow> Options \<Rightarrow> scan_state \<Rightarrow> scan_state \<times> error option" where
  "walkDir E dir cwd opts st = filepath_WalkDir (walk_fn E cwd opts) (WalkTree E dir) st"

definition normalizeOptions :: "Options \<Rightarrow> Options" where
  "normalizeOptions opts =
    (if DefaultSeverity opts \<noteq> SeverityWarning then opts\<lparr>DefaultSeverity := SeverityError\<rparr>
     else opts)"

definition finding_less :: "Finding \<Rightarrow> Finding \<Rightarrow> bool" where
  "finding_less a b =
    (if Path a \<noteq> Path b then Path a < Path b
     else if Line a \<noteq> Line b then Line a < Line b
     else if Column a \<noteq> Column b then Column a < Column b
     else CodePoint a < CodePoint b)"

definition emptyResult :: Result where
  "emptyResult =
    \<lparr>Findings = [], ScannedFiles = [], SkippedFiles = [],
     Summary = \<lparr>FilesScanned = 0, FilesSkipped = 0, FindingsCount = 0\<rparr>\<rparr>"

text \<open>The loop of \<open>Scan\<close> over the cleaned root paths.\<close>

fun scan_roots ::
  "env \<Rightarrow> string \<Rightarrow> Options \<Rightarrow> string list \<Rightarrow> scan_state \<Rightarrow> scan_state \<times> error option" where
  "scan_roots E cwd opts [] st = (st, None)"
| "scan_roots E cwd opts (path # paths) st =
    (case Stat E path of
       Inl err \<Rightarrow> (st, Some err)
     | Inr isDir \<Rightarrow>
         (case (if isDir then walkDir E path cwd opts st else scanFile E path cwd opts st) of
            (st', Some err) \<Rightarrow> (st', Some err)
          | (st', None) \<Rightarrow> scan_roots E cwd opts paths st'))"

definition cleanPaths :: "env \<Rightarrow> string list \<Rightarrow> string list" where
  "cleanPaths E paths =
    (let ps = filter (\<lambda>p. p \<noteq> []) (map (TrimSpace E) (if paths = [] then [''.''] else paths)) in
     if ps = [] then [''.''] else ps)"

definition finish :: "Result \<Rightarrow> Result" where
  "finish r =
    (let scanned = sort (ScannedFiles r);
         skipped = sort_Slice (\<lambda>a b. SkippedPath a < SkippedPath b) (SkippedFiles r);
         findings = sort_Slice finding_less (Findings r) in
     \<lparr>Findings = findings, ScannedFiles = scanned, SkippedFiles = skipped,
      Summary = \<lparr>FilesScanned = length scanned, FilesSkipped = length skipped,
                 FindingsCount = length findings\<rparr>\<rparr>)"

definition start_state :: scan_state where
  "start_state =
    \<lparr>visited = {},
     res = \<lparr>Findings = [], ScannedFiles = [], SkippedFiles = [],
            Summary = \<lparr>FilesScanned = 0, FilesSkipped = 0, FindingsCount = 0\<rparr>\<rparr>,
     read_log = []\<rparr>"

text \<open>
  \<open>Scan\<close> returns the result and the error. \<open>scan_run\<close> is the part of \<open>Scan\<close> up to the end
  of the loop, with the final state, to speak about the files read.
\<close>

definition scan_run :: "env \<Rightarrow> string list \<Rightarrow> Options \<Rightarrow> string \<Rightarrow> scan_state \<times> error option" where
  "scan_run E paths opts cwd =
    scan_roots E cwd (normalizeOptions opts) (cleanPaths E paths) start_state"

definition Scan :: "env \<Rightarrow> string list \<Rightarrow> Options \<Rightarrow> Result \<times> error option" where
  "Scan E paths opts =
    (case Getwd E of
       Inl err \<Rightarrow> (emptyResult, Some err)
     | Inr cwd \<Rightarrow>
         (case scan_run E paths opts cwd of
            (st, Some err) \<Rightarrow> (emptyResult, Some err)
          | (st, None) \<Rightarrow> (finish (res st), None)))"

section \<open>An environment for examples\<close>

text \<open>
  A machine with the working directory \<open>/work\<close> that holds the given regular files (absolute
  path and content) and no directory to walk. The library functions are given on ASCII:
  \<open>strings.TrimSpace\<close> removes ASCII white space, \<open>strings.ToLower\<close> maps \<open>A\<close> to \<open>Z\<close>, and
  \<open>%q\<close> puts its argument between double quotes. Of the Unicode tables the environment has
  the Hiragana range U+3041 to U+3096 and the letters of Latin-1 beyond ASCII; the examples
  use no other character whose category matters. \<open>literal_Match\<close> is \<open>match.Match\<close> for
  patterns without wildcard characters.
\<close>

definition ascii_space :: "char \<Rightarrow> bool" where
  "ascii_space c = (c \<in> {CHR 0x09, CHR 0x0A, CHR 0x0B, CHR 0x0C, CHR 0x0D, CHR 0x20})"

definition ascii_TrimSpace :: "string \<Rightarrow> string" where
  "ascii_TrimSpace s = rev (dropWhile ascii_space (rev (dropWhile ascii_space s)))"

definition ascii_ToLower :: "string \<Rightarrow> string" where
  "ascii_ToLower s =
    map (\<lambda>c. if 0x41 \<le> (of_char c :: nat) \<and> (of_char c :: nat) \<le> 0x5A
             then byte (of_char c + 32) else c) s"

definition plain_Quote :: "string \<Rightarrow> string" where
  "plain_Quote s = [CHR 0x22] @ s @ [CHR 0x22]"

text \<open>
  Modelled from the spec: the package \<open>match\<close> is not among the sources; the spec says of
  \<open>Match\<close> that literal segments match themselves, that the whole path has to match, and that
  an exact string match is always tried. This is \<open>Match\<close> on patterns without \<open>*\<close> and \<open>?\<close>.
\<close>

definition literal_Match :: "string \<Rightarrow> string \<Rightarrow> bool" where
  "literal_Match pattern path = (pattern = path)"

definition example_env :: "(string \<times> string) list \<Rightarrow> env" where
  "example_env files =
    \<lparr>Getwd = Inr ''/work'',
     Stat = (\<lambda>p. case map_of files (if HasPrefix p ''/'' then p else ''/work/'' @ p) of
                    Some data \<Rightarrow> Inr False
                  | None \<Rightarrow> Inl (SysError ''no such file or directory'')),
     Abs = (\<lambda>p. Inr (if HasPrefix p ''/'' then p else ''/work/'' @ p)),
     Rel = (\<lambda>base target.
              if target = base then Inr ''.''
              else if HasPrefix target (base @ ''/'') then Inr (drop (length base + 1) target)
              else Inr (''..'' @ target)),
     ReadFile = (\<lambda>p. case map_of files p of
                        Some data \<Rightarrow> Inr data
                      | None \<Rightarrow> Inl (SysError ''no such file or directory'')),
     WalkTree = (\<lambda>dir. WFail dir (SysError ''no such file or directory'')),
     Match = literal_Match,
     TrimSpace = ascii_TrimSpace,
     ToLower = ascii_ToLower,
     Quote = plain_Quote,
     InHan = (\<lambda>r. False),
     InHiragana = (\<lambda>r. 0x3041 \<le> r \<and> r \<le> 0x3096),
     InKatakana = (\<lambda>r. False),
     InHangul = (\<lambda>r. False),
     InCyrillic = (\<lambda>r. False),
     InArabic = (\<lambda>r. False),
     InThai = (\<lambda>r. False),
     InDevanagari = (\<lambda>r. False),
     InHebrew = (\<lambda>r. False),
     InGreek = (\<lambda>r. False),
     InLatin = (\<lambda>r. (0xC0 \<le> r \<and> r \<le> 0xFF \<and> r \<noteq> 0xD7 \<and> r \<noteq> 0xF7)),
     IsPunct = (\<lambda>r. False),
     IsSymbol = (\<lambda>r. False)\<rparr>"

definition defaultOptions :: Options where
  "defaultOptions =
    \<lparr>Include = [], Exclude = [], AllowRunes = {}, DefaultSeverity = SeverityError,
     IgnoreComments = False, IgnoreStrings = False, AllowFilePatterns = []\<rparr>"

text \<open>The bytes of \<open>var _ = "\<dots>"\<close> with the five Hiragana letters of the greeting.\<close>

definition konnichiwa :: string where
  "konnichiwa =
    [CHR 0xE3, CHR 0x81, CHR 0x93, CHR 0xE3, CHR 0x82, CHR 0x93, CHR 0xE3, CHR 0x81, CHR 0xAB,
     CHR 0xE3, CHR 0x81, CHR 0xA1, CHR 0xE3, CHR 0x81, CHR 0xAF]"

definition sample_go :: string where
  "sample_go = ''var _ = '' @ [CHR 0x22] @ konnichiwa @ [CHR 0x22]"

section \<open>Termination of the content scanner\<close>

lemma scan_iterate_enough:
  "length text - cur_i c \<le> n \<Longrightarrow>
    snd (scan_iterate E path text lines syntax opts n (c, fs)) = scan_loop E path text lines syntax opts c fs
    \<and> length text \<le> cur_i (fst (scan_iterate E path text lines syntax opts n (c, fs)))"
proof (induction n arbitrary: c fs)
  case 0
  then show ?case by (simp add: scan_loop.simps)
next
  case (Suc n)
  show ?case
  proof (cases "cur_i c < length text")
    case False
    then show ?thesis by (simp add: scan_loop.simps)
  next
    case True
    let ?c' = "fst (scan_step E path text lines syntax opts c)"
    have "cur_i c < cur_i ?c'" using True by (rule scan_step_advances)
    with Suc.prems have "length text - cur_i ?c' \<le> n" by linarith
    from Suc.IH[OF this] True show ?thesis
      by (subst scan_loop.simps) simp
  qed
qed

text \<open>
  Claim C10. \<open>scanContent\<close> terminates on every input. Every iteration of its loop moves
  the byte index forward by at least one: a token consumed is not empty, an invalid byte
  advances one byte, and decoding a non-empty suffix consumes at least one byte. So the
  loop ends within \<open>len(text)\<close> iterations: run for that many iterations it has reached
  the end of the text and has produced the findings of \<open>scanContent\<close>, whatever the
  bytes, the syntax rules and the options are.
\<close>

theorem scanContent_terminates:
  "(cur_i c < length text \<longrightarrow>
      cur_i c < cur_i (fst (scan_step E path text lines syntax opts c)))
   \<and> snd (scan_iterate E path text (Split_nl text) syntax opts (length text) (start_cursor, []))
       = scanContent E path text syntax opts
   \<and> length text
       \<le> cur_i (fst (scan_iterate E path text (Split_nl text) syntax opts (length text)
                 (start_cursor, [])))"
  using scan_iterate_enough[of "text" start_cursor "length text" E path "Split_nl text" "syntax" opts "[]"]
  by (simp add: scan_step_advances scanContent_def)

theorem scanContent_terminates_witness:
  "cur_i start_cursor < length ''a//b''
   \<and> cur_i start_cursor
       < cur_i (fst (scan_step (example_env []) ''x.go'' ''a//b'' (Split_nl ''a//b'')
           (syntaxForPath (example_env []) ''x.go'') defaultOptions start_cursor))
   \<and> length ''a//b''
       \<le> cur_i (fst (scan_iterate (example_env []) ''x.go'' ''a//b'' (Split_nl ''a//b'')
           (syntaxForPath (example_env []) ''x.go'') defaultOptions (length ''a//b'')
                 (start_cursor, [])))"
  using scanContent_terminates[of start_cursor "''a//b''" "example_env []" "''x.go''"
      "Split_nl ''a//b''" "syntaxForPath (example_env []) ''x.go''" defaultOptions]
  by (simp add: start_cursor_def)

section \<open>Evaluating the scanner on concrete files\<close>

lemma scan_loop_step:
  "cur_i c < length text \<Longrightarrow>
    scan_loop E path text lines syntax opts c fs =
    scan_loop E path text lines syntax opts (fst (scan_step E path text lines syntax opts c))
      (fs @ snd (scan_step E path text lines syntax opts c))"
  by (subst scan_loop.simps) simp

lemma scan_loop_done:
  "\<not> cur_i c < length text \<Longrightarrow> scan_loop E path text lines syntax opts c fs = fs"
  by (subst scan_loop.simps) simp

named_theorems scan_eval

lemmas [scan_eval] =
  scan_loop_step scan_loop_done scan_step_def scan_transition_def scan_inspect_def
  start_cursor_def HasPrefix_def shouldInspect_def isAllowedRune_def Let_def RuneError_def
  enter_byte_def enter_token_def advanceByToken_def range_runes.simps RuneLen_def
  is_cont_def rune_finding_def invalid_finding_def categoryForRune_def
  format_code_point_def hex_upper.simps hex_digit_def string_of_rune_def byte_def char_of_def
  bit_Suc_0_iff lineExcerpt_def TrimRight_cr_def

definition go_rules :: syntaxRules where
  "go_rules =
    \<lparr>lineComments = [''//''], blockStart = ''/*'', blockEnd = ''*/'', strings = True,
     backtick = True\<rparr>"

lemma syntaxForPath_go: "ToLower E (Ext path) = ''.go'' \<Longrightarrow> syntaxForPath E path = go_rules"
  by (simp add: syntaxForPath_def go_rules_def c_family_def Let_def)

lemma defaultOptions_fields:
  "Include defaultOptions = []" "Exclude defaultOptions = []" "AllowRunes defaultOptions = {}"
  "DefaultSeverity defaultOptions = SeverityError" "\<not> IgnoreComments defaultOptions"
  "\<not> IgnoreStrings defaultOptions" "AllowFilePatterns defaultOptions = []"
  by (simp_all add: defaultOptions_def)

lemma normalizeOptions_default: "normalizeOptions defaultOptions = defaultOptions"
  by (simp add: normalizeOptions_def defaultOptions_def SeverityError_def SeverityWarning_def)

subsection \<open>The file \<open>sample.go\<close>\<close>

definition sample_env :: env where
  "sample_env = example_env [(''/work/sample.go'', sample_go)]"

definition hiragana_letters :: "rune list" where
  "hiragana_letters = [0x3053, 0x3093, 0x306B, 0x3061, 0x306F]"

definition hiragana_finding :: "env \<Rightarrow> nat \<Rightarrow> string \<Rightarrow> string \<Rightarrow> Finding" where
  "hiragana_finding E column bytes code =
    \<lparr>Path = ''sample.go'', Line = 1, Column = column, Character = bytes,
     CodePoint = code, Category = ''CJK'', Severity = ''error'',
     Message = ''Detected CJK character '' @ Quote E bytes @ '' ('' @ code @ '')'',
     Excerpt = sample_go\<rparr>"

definition sample_findings :: "env \<Rightarrow> Finding list" where
  "sample_findings E =
    [hiragana_finding E 10 [CHR 0xE3, CHR 0x81, CHR 0x93] ''U+3053'',
     hiragana_finding E 11 [CHR 0xE3, CHR 0x82, CHR 0x93] ''U+3093'',
     hiragana_finding E 12 [CHR 0xE3, CHR 0x81, CHR 0xAB] ''U+306B'',
     hiragana_finding E 13 [CHR 0xE3, CHR 0x81, CHR 0xA1] ''U+3061'',
     hiragana_finding E 14 [CHR 0xE3, CHR 0x81, CHR 0xAF] ''U+306F'']"

definition sample_result :: "env \<Rightarrow> Result" where
  "sample_result E =
    \<lparr>Findings = sample_findings E, ScannedFiles = [''sample.go''], SkippedFiles = [],
     Summary = \<lparr>FilesScanned = 1, FilesSkipped = 0, FindingsCount = 5\<rparr>\<rparr>"

lemma scanContent_sample_go:
  assumes "list_all (InHiragana E) hiragana_letters"
  shows "scanContent E ''sample.go'' sample_go go_rules defaultOptions = sample_findings E"
  using assms unfolding scanContent_def
  by (simp add: scan_eval go_rules_def sample_go_def konnichiwa_def defaultOptions_def
      sample_findings_def hiragana_finding_def SeverityError_def hiragana_letters_def)

lemma Ext_sample_go: "Ext ''sample.go'' = ''.go''"
  by (simp add: Ext_def last_element_def)

lemma isBinary_sample_go: "\<not> isBinary sample_go"
  by (simp add: isBinary_def sample_go_def konnichiwa_def)

lemma finish_sample:
  "finish \<lparr>Findings = sample_findings E, ScannedFiles = [''sample.go''], SkippedFiles = [],
      Summary = s\<rparr> = sample_result E"
  by (simp add: finish_def sort_Slice_def sample_findings_def hiragana_finding_def
      finding_less_def sample_result_def)

lemma Scan_sample_go:
  assumes "Getwd E = Inr cwd" and "TrimSpace E ''sample.go'' = ''sample.go''"
    and "Stat E ''sample.go'' = Inr False" and "Abs E ''sample.go'' = Inr a"
    and "Abs E a = Inr a" and "Rel E cwd a = Inr ''sample.go''"
    and "ReadFile E a = Inr sample_go" and "ToLower E ''.go'' = ''.go''"
    and "list_all (InHiragana E) hiragana_letters"
  shows "Scan E [''sample.go''] defaultOptions = (sample_result E, None)"
proof -
  have d: "displayPath E cwd a = ''sample.go''"
    using assms(5,6) by (simp add: displayPath_def HasPrefix_def ToSlash_def)
  have s: "syntaxForPath E ''sample.go'' = go_rules"
    using assms(8) by (simp add: syntaxForPath_go Ext_sample_go)
  have f: "scanFile E ''sample.go'' cwd defaultOptions start_state =
    (\<lparr>visited = {a},
      res = \<lparr>Findings = sample_findings E, ScannedFiles = [''sample.go''], SkippedFiles = [],
        Summary = \<lparr>FilesScanned = 0, FilesSkipped = 0, FindingsCount = 0\<rparr>\<rparr>,
      read_log = [a]\<rparr>, None)"
    using assms(4,7) isBinary_sample_go
    by (simp add: scanFile_def start_state_def d s scanContent_sample_go[OF assms(9)]
        isIncluded_def isExcluded_def isAllowedFile_def defaultOptions_fields add_scanned_def
        sample_findings_def)
  show ?thesis
    using assms(1,2,3)
    by (simp add: Scan_def scan_run_def cleanPaths_def normalizeOptions_default f finish_sample)
qed

lemma sample_env_facts:
  "Getwd sample_env = Inr ''/work''"
  "TrimSpace sample_env ''sample.go'' = ''sample.go''"
  "Stat sample_env ''sample.go'' = Inr False"
  "Abs sample_env ''sample.go'' = Inr ''/work/sample.go''"
  "Abs sample_env ''/work/sample.go'' = Inr ''/work/sample.go''"
  "Rel sample_env ''/work'' ''/work/sample.go'' = Inr ''sample.go''"
  "ReadFile sample_env ''/work/sample.go'' = Inr sample_go"
  "ToLower sample_env ''.go'' = ''.go''"
  "list_all (InHiragana sample_env) hiragana_letters"
  by (simp_all add: sample_env_def example_env_def HasPrefix_def ascii_TrimSpace_def
      ascii_space_def ascii_ToLower_def hiragana_letters_def)

lemma Scan_sample_env: "Scan sample_env [''sample.go''] defaultOptions = (sample_result sample_env, None)"
  by (rule Scan_sample_go) (rule sample_env_facts)+

section \<open>Sorting\<close>

definition finding_key :: "Finding \<Rightarrow> string \<times> nat \<times> nat \<times> string" where
  "finding_key f = (Path f, Line f, Column f, CodePoint f)"

lemma finding_less_key: "finding_less a b \<longleftrightarrow> finding_key a < finding_key b"
  by (auto simp: finding_less_def finding_key_def less_prod_def)

lemma set_insert_by: "set (insert_by lt x ys) = insert x (set ys)"
  by (induction ys) auto

lemma sorted_insert_by:
  fixes k :: "'a \<Rightarrow> 'k::linorder"
  assumes lt: "\<And>a b. lt a b \<longleftrightarrow> k a < k b"
  shows "sorted (map k ys) \<Longrightarrow> sorted (map k (insert_by lt x ys))"
  by (induction ys) (auto simp: lt set_insert_by)

lemma sorted_sort_Slice:
  fixes k :: "'a \<Rightarrow> 'k::linorder"
  assumes lt: "\<And>a b. lt a b \<longleftrightarrow> k a < k b"
  shows "sorted (map k (sort_Slice lt xs))"
  unfolding sort_Slice_def
  by (induction xs) (simp_all add: sorted_insert_by[OF lt])

lemma length_insert_by: "length (insert_by lt x ys) = Suc (length ys)"
  by (induction ys) auto

lemma length_sort_Slice: "length (sort_Slice lt xs) = length xs"
  unfolding sort_Slice_def by (induction xs) (simp_all add: length_insert_by)

lemma set_sort_Slice: "set (sort_Slice lt xs) = set xs"
  unfolding sort_Slice_def by (induction xs) (simp_all add: set_insert_by)

lemma Scan_success:
  "Scan E paths opts = (r, None) \<Longrightarrow>
    \<exists>cwd st. Getwd E = Inr cwd \<and> scan_run E paths opts cwd = (st, None) \<and> r = finish (res st)"
  by (auto simp: Scan_def split: sum.splits prod.splits option.splits)

section \<open>The claims about \<open>Scan\<close>\<close>

text \<open>
  Claim C1, as the code has it. The file \<open>sample.go\<close> holds \<open>var _ = "\<dots>"\<close> with the five
  Hiragana letters, on one line, and is scanned with the default options. \<open>Scan\<close> reports
  every disallowed code point of an inspected string, so it yields five findings, one for
  each letter, all on line 1, in columns 10 to 14, each with category CJK and severity
  error; the first is the one for U+3053, and the summary counts five findings and one
  scanned file. This holds in every environment in which \<open>sample.go\<close> is that regular
  file below the working directory and the Unicode tables have the five letters in
  Hiragana.
\<close>

theorem Scan_sample_go_five_findings:
  assumes "Getwd E = Inr cwd" and "TrimSpace E ''sample.go'' = ''sample.go''"
    and "Stat E ''sample.go'' = Inr False" and "Abs E ''sample.go'' = Inr a"
    and "Abs E a = Inr a" and "Rel E cwd a = Inr ''sample.go''"
    and "ReadFile E a = Inr sample_go" and "ToLower E ''.go'' = ''.go''"
    and "list_all (InHiragana E) hiragana_letters"
  shows "Scan E [''sample.go''] defaultOptions =
    (\<lparr>Findings =
        [hiragana_finding E 10 [CHR 0xE3, CHR 0x81, CHR 0x93] ''U+3053'',
         hiragana_finding E 11 [CHR 0xE3, CHR 0x82, CHR 0x93] ''U+3093'',
         hiragana_finding E 12 [CHR 0xE3, CHR 0x81, CHR 0xAB] ''U+306B'',
         hiragana_finding E 13 [CHR 0xE3, CHR 0x81, CHR 0xA1] ''U+3061'',
         hiragana_finding E 14 [CHR 0xE3, CHR 0x81, CHR 0xAF] ''U+306F''],
      ScannedFiles = [''sample.go''], SkippedFiles = [],
      Summary = \<lparr>FilesScanned = 1, FilesSkipped = 0, FindingsCount = 5\<rparr>\<rparr>, None)"
  using Scan_sample_go[OF assms] by (simp add: sample_result_def sample_findings_def)

theorem Scan_sample_go_five_findings_witness:
  "Getwd sample_env = Inr ''/work''
   \<and> TrimSpace sample_env ''sample.go'' = ''sample.go''
   \<and> Stat sample_env ''sample.go'' = Inr False
   \<and> Abs sample_env ''sample.go'' = Inr ''/work/sample.go''
   \<and> Abs sample_env ''/work/sample.go'' = Inr ''/work/sample.go''
   \<and> Rel sample_env ''/work'' ''/work/sample.go'' = Inr ''sample.go''
   \<and> ReadFile sample_env ''/work/sample.go'' = Inr sample_go
   \<and> ToLower sample_env ''.go'' = ''.go''
   \<and> list_all (InHiragana sample_env) hiragana_letters
   \<and> map Column (Findings (fst (Scan sample_env [''sample.go''] defaultOptions)))
        = [10, 11, 12, 13, 14]
   \<and> map Line (Findings (fst (Scan sample_env [''sample.go''] defaultOptions)))
        = [1, 1, 1, 1, 1]
   \<and> map Category (Findings (fst (Scan sample_env [''sample.go''] defaultOptions)))
        = [''CJK'', ''CJK'', ''CJK'', ''CJK'', ''CJK'']"
  using Scan_sample_go_five_findings[of sample_env "''/work''" "''/work/sample.go''"]
  by (simp add: sample_env_facts hiragana_finding_def)

text \<open>
  Claim C1 as the spec states it says that there is exactly one finding, on line 2, and
  that the summary counts one finding. On the machine of the examples the scan of that
  file has five findings, the first of them on line 1.
\<close>

theorem Scan_sample_go_counterexample:
  "length (Findings (fst (Scan sample_env [''sample.go''] defaultOptions))) \<noteq> 1
   \<and> Line (hd (Findings (fst (Scan sample_env [''sample.go''] defaultOptions)))) \<noteq> 2
   \<and> FindingsCount (Summary (fst (Scan sample_env [''sample.go''] defaultOptions))) \<noteq> 1"
  by (simp add: Scan_sample_env sample_result_def sample_findings_def hiragana_finding_def)

text \<open>
  Claim C6. In the result of a successful \<open>Scan\<close>, a finding that comes before another has
  a tuple (path, line, column, code point) that is less than or equal to the other's in
  the lexicographic order, whatever the environment and so whatever the order in which
  the file system lists its entries.
\<close>

theorem Scan_findings_sorted:
  assumes "Scan E paths opts = (r, None)" and "i < j" and "j < length (Findings r)"
  shows "(Path (Findings r ! i), Line (Findings r ! i), Column (Findings r ! i),
            CodePoint (Findings r ! i))
         \<le> (Path (Findings r ! j), Line (Findings r ! j), Column (Findings r ! j),
            CodePoint (Findings r ! j))"
proof -
  from assms(1) obtain st :: scan_state where r: "r = finish (res st)"
    using Scan_success by blast
  have "sorted (map finding_key (Findings r))"
    unfolding r finish_def Let_def by (simp add: sorted_sort_Slice[OF finding_less_key])
  then have "finding_key (Findings r ! i) \<le> finding_key (Findings r ! j)"
    using assms(2,3) by (simp add: sorted_iff_nth_mono_less)
  then show ?thesis by (simp add: finding_key_def)
qed

theorem Scan_findings_sorted_witness:
  "Scan sample_env [''sample.go''] defaultOptions = (sample_result sample_env, None)
   \<and> (0::nat) < 1 \<and> 1 < length (Findings (sample_result sample_env))
   \<and> (Path (Findings (sample_result sample_env) ! 0), Line (Findings (sample_result sample_env) ! 0),
        Column (Findings (sample_result sample_env) ! 0),
        CodePoint (Findings (sample_result sample_env) ! 0))
      \<le> (Path (Findings (sample_result sample_env) ! 1), Line (Findings (sample_result sample_env) ! 1),
        Column (Findings (sample_result sample_env) ! 1),
        CodePoint (Findings (sample_result sample_env) ! 1))"
proof -
  have l: "1 < length (Findings (sample_result sample_env))"
    by (simp add: sample_result_def sample_findings_def)
  show ?thesis
    using Scan_findings_sorted[OF Scan_sample_env _ l, of 0] Scan_sample_env l by simp
qed

section \<open>Invariants of the orchestrator\<close>

text \<open>
  A file is text if it can be read and \<open>isBinary\<close> is false of its bytes. The invariant of
  the scan: no path was read twice, every path read is in \<open>visited\<close>, and the scanned files
  are the display paths of the text files read, in the order in which they were read.
\<close>

definition is_text :: "env \<Rightarrow> string \<Rightarrow> bool" where
  "is_text E absp = (case ReadFile E absp of Inr data \<Rightarrow> \<not> isBinary data | Inl err \<Rightarrow> False)"

definition log_inv :: "env \<Rightarrow> string \<Rightarrow> scan_state \<Rightarrow> bool" where
  "log_inv E cwd st \<longleftrightarrow>
    distinct (read_log st) \<and> set (read_log st) \<subseteq> visited st
    \<and> ScannedFiles (res st) = map (displayPath E cwd) (filter (is_text E) (read_log st))"

lemma walk_invariant:
  fixes fn :: "string \<Rightarrow> bool \<Rightarrow> bool \<Rightarrow> error option \<Rightarrow> 's \<Rightarrow> 's \<times> walk_ret"
  shows "(\<And>path d r err s. P s \<Longrightarrow> P (fst (fn path d r err s))) \<Longrightarrow> P s
      \<Longrightarrow> P (fst (filepath_walkDir fn t s))"
    and "(\<And>path d r err s. P s \<Longrightarrow> P (fst (fn path d r err s))) \<Longrightarrow> P s
      \<Longrightarrow> P (fst (filepath_walkDir_entries fn ts s))"
proof (induction fn t s and fn ts s rule: filepath_walkDir_filepath_walkDir_entries.induct)
  case (1 fn path e s)
  then show ?case by simp
next
  case (2 fn path regular s)
  then show ?case by simp
next
  case (3 fn path readErr entries s)
  obtain s1 r1 where f1: "fn path True False None s = (s1, r1)" by force
  have p1: "P s1" using "3.prems"(1)[OF "3.prems"(2), of path True False None] f1 by simp
  show ?case
  proof (cases r1)
    case WNil
    show ?thesis
    proof (cases readErr)
      case None
      with f1 WNil "3.IH"(1)[OF f1[symmetric] WNil None "3.prems"(1) p1] show ?thesis by simp
    next
      case (Some e)
      obtain s2 r2 where f2: "fn path True False (Some e) s1 = (s2, r2)" by force
      have p2: "P s2" using "3.prems"(1)[OF p1, of path True False "Some e"] f2 by simp
      show ?thesis
      proof (cases r2)
        case WNil2: WNil
        with f1 WNil Some f2
          "3.IH"(2)[OF f1[symmetric] WNil Some f2[symmetric] WNil2 "3.prems"(1) p2]
        show ?thesis by simp
      next
        case WSkipDir
        with f1 WNil Some f2 p2 show ?thesis by simp
      next
        case (WErr e')
        with f1 WNil Some f2 p2 show ?thesis by simp
      qed
    qed
  next
    case WSkipDir
    with f1 p1 show ?thesis by simp
  next
    case (WErr e)
    with f1 p1 show ?thesis by simp
  qed
next
  case (4 fn s)
  then show ?case by simp
next
  case (5 fn d ds s)
  obtain s1 r1 where f1: "filepath_walkDir fn d s = (s1, r1)" by force
  have p1: "P s1" using "5.IH"(1)[OF "5.prems"] f1 by simp
  show ?case
  proof (cases r1)
    case WNil
    with f1 "5.IH"(2)[OF f1[symmetric] WNil "5.prems"(1) p1] show ?thesis by simp
  next
    case WSkipDir
    with f1 p1 show ?thesis by simp
  next
    case (WErr e)
    with f1 p1 show ?thesis by simp
  qed
qed


lemma add_skipped_simps [simp]:
  "visited (add_skipped st d r) = visited st" "read_log (add_skipped st d r) = read_log st"
  "ScannedFiles (res (add_skipped st d r)) = ScannedFiles (res st)"
  "Findings (res (add_skipped st d r)) = Findings (res st)"
  "SkippedFiles (res (add_skipped st d r)) = SkippedFiles (res st) @ [\<lparr>SkippedPath = d, Reason = r\<rparr>]"
  by (simp_all add: add_skipped_def)

lemma add_scanned_simps [simp]:
  "visited (add_scanned st d fs) = visited st" "read_log (add_scanned st d fs) = read_log st"
  "ScannedFiles (res (add_scanned st d fs)) = ScannedFiles (res st) @ [d]"
  "Findings (res (add_scanned st d fs)) = Findings (res st) @ fs"
  "SkippedFiles (res (add_scanned st d fs)) = SkippedFiles (res st)"
  by (simp_all add: add_scanned_def)

lemma scanFile_log_inv: "log_inv E cwd st \<Longrightarrow> log_inv E cwd (fst (scanFile E path cwd opts st))"
  unfolding scanFile_def log_inv_def
  by (auto simp: Let_def is_text_def split: sum.splits)

lemma scanFile_again:
  "scanFile E path cwd opts st = (st', None) \<Longrightarrow> scanFile E path cwd opts st' = (st', None)"
  unfolding scanFile_def
  by (auto simp: Let_def split: sum.splits if_splits)

lemma walk_fn_log_inv:
  "log_inv E cwd st \<Longrightarrow> log_inv E cwd (fst (walk_fn E cwd opts path d r err st))"
  unfolding walk_fn_def
  by (auto simp: Let_def split: option.splits prod.splits dest: scanFile_log_inv[of E cwd st path opts])


lemma fst_filepath_WalkDir: "fst (filepath_WalkDir fn t s) = fst (filepath_walkDir fn t s)"
  by (cases "filepath_walkDir fn t s"; cases "snd (filepath_walkDir fn t s)")
    (simp_all add: filepath_WalkDir_def)

lemma walkDir_log_inv: "log_inv E cwd st \<Longrightarrow> log_inv E cwd (fst (walkDir E dir cwd opts st))"
proof -
  assume a: "log_inv E cwd st"
  have "log_inv E cwd (fst (filepath_walkDir (walk_fn E cwd opts) (WalkTree E dir) st))"
    by (rule walk_invariant(1)[where P = "log_inv E cwd"]) (simp_all add: walk_fn_log_inv a)
  then show ?thesis
    by (simp add: walkDir_def fst_filepath_WalkDir)
qed

lemma scan_roots_log_inv:
  "log_inv E cwd st \<Longrightarrow> log_inv E cwd (fst (scan_roots E cwd opts paths st))"
proof (induction paths arbitrary: st)
  case Nil
  then show ?case by simp
next
  case (Cons p ps)
  show ?case
  proof (cases "Stat E p")
    case (Inl e)
    with Cons.prems show ?thesis by simp
  next
    case (Inr isDir)
    define r where "r = (if isDir then walkDir E p cwd opts st else scanFile E p cwd opts st)"
    have "log_inv E cwd (fst r)"
      unfolding r_def using Cons.prems by (simp add: walkDir_log_inv scanFile_log_inv)
    then show ?thesis
      using Inr Cons.IH[of "fst r"] unfolding r_def
      by (auto split: prod.splits option.splits)
  qed
qed

lemma start_state_log_inv: "log_inv E cwd start_state"
  by (simp add: log_inv_def start_state_def)

lemma scan_run_log_inv: "log_inv E cwd (fst (scan_run E paths opts cwd))"
  unfolding scan_run_def by (rule scan_roots_log_inv) (rule start_state_log_inv)

lemma scan_roots_twice:
  assumes "Stat E t \<noteq> Inr True"
  shows "scan_roots E cwd opts [t, t] st = scan_roots E cwd opts [t] st"
proof (cases "Stat E t")
  case (Inl e)
  then show ?thesis by simp
next
  case (Inr isDir)
  with assms have nd: "\<not> isDir" by auto
  obtain st' r where f: "scanFile E t cwd opts st = (st', r)" by force
  show ?thesis
  proof (cases r)
    case None
    with f have "scanFile E t cwd opts st' = (st', None)" by (simp add: scanFile_again)
    with f None Inr nd show ?thesis by simp
  next
    case (Some e)
    with f Inr nd show ?thesis by simp
  qed
qed

lemma cleanPaths_twice:
  "cleanPaths E [p, p] = (if TrimSpace E p = [] then [''.''] else [TrimSpace E p, TrimSpace E p])"
  "cleanPaths E [p] = (if TrimSpace E p = [] then [''.''] else [TrimSpace E p])"
  by (simp_all add: cleanPaths_def)

lemma scan_run_twice:
  assumes "Stat E (TrimSpace E p) \<noteq> Inr True"
  shows "scan_run E [p, p] opts cwd = scan_run E [p] opts cwd"
proof (cases "TrimSpace E p = []")
  case True
  then show ?thesis by (simp add: scan_run_def cleanPaths_twice)
next
  case False
  then show ?thesis
    by (simp only: scan_run_def cleanPaths_twice if_False scan_roots_twice[OF assms])
qed

lemma Scan_twice:
  assumes "Stat E (TrimSpace E p) \<noteq> Inr True"
  shows "Scan E [p, p] opts = Scan E [p] opts"
  by (cases "Getwd E") (simp_all add: Scan_def scan_run_twice[OF assms])

lemma scanFile_scanned_le:
  "length (ScannedFiles (res (fst (scanFile E path cwd opts st)))) \<le> Suc (length (ScannedFiles (res st)))"
  unfolding scanFile_def by (auto simp: Let_def split: sum.splits)

lemma length_ScannedFiles_finish: "length (ScannedFiles (finish r)) = length (ScannedFiles r)"
  by (simp add: finish_def Let_def)


lemma Scan_ScannedFiles_run:
  "length (ScannedFiles (fst (Scan E paths opts)))
    \<le> (case Getwd E of Inl e \<Rightarrow> 0
        | Inr cwd \<Rightarrow> length (ScannedFiles (res (fst (scan_run E paths opts cwd)))))"
  by (auto simp: Scan_def emptyResult_def finish_def Let_def split: sum.splits prod.splits option.splits)


text \<open>
  Binary detection in the words of the spec, with the fraction as a real number: a control
  character is a byte below 0x20 or the byte 0x7F, other than newline, carriage return
  and tab.
\<close>

definition is_control :: "char \<Rightarrow> bool" where
  "is_control b \<longleftrightarrow> ((of_char b :: nat) < 0x20 \<or> b = CHR 0x7F)
     \<and> b \<noteq> CHR 0x0A \<and> b \<noteq> CHR 0x0D \<and> b \<noteq> CHR 0x09"

definition control_fraction :: "string \<Rightarrow> real" where
  "control_fraction sample = real (length (filter is_control sample)) / real (length sample)"

definition binary_by_spec :: "string \<Rightarrow> bool" where
  "binary_by_spec data \<longleftrightarrow>
    CHR 0x00 \<in> set (take 8192 data) \<or> 0.30 < control_fraction (take 8192 data)"




lemma normalizeOptions_fields [simp]:
  "Include (normalizeOptions opts) = Include opts"
  "Exclude (normalizeOptions opts) = Exclude opts"
  "AllowFilePatterns (normalizeOptions opts) = AllowFilePatterns opts"
  "AllowRunes (normalizeOptions opts) = AllowRunes opts"
  "IgnoreComments (normalizeOptions opts) = IgnoreComments opts"
  "IgnoreStrings (normalizeOptions opts) = IgnoreStrings opts"
  by (simp_all add: normalizeOptions_def)

lemma scanFile_binary:
  assumes "Abs E path = Inr a" and "a \<notin> visited st"
    and "isIncluded E (displayPath E cwd a) (Include opts)"
    and "\<not> isExcluded E (displayPath E cwd a) (Exclude opts)"
    and "\<not> isAllowedFile E (displayPath E cwd a) (AllowFilePatterns opts)"
    and "ReadFile E a = Inr data" and "isBinary data"
  shows "scanFile E path cwd opts st =
    (add_skipped (st\<lparr>visited := insert a (visited st), read_log := read_log st @ [a]\<rparr>)
       (displayPath E cwd a) ''binary file'', None)"
  using assms by (simp add: scanFile_def Let_def)

lemma finish_skipped_only:
  "finish \<lparr>Findings = [], ScannedFiles = [], SkippedFiles = [sk], Summary = s\<rparr> =
    \<lparr>Findings = [], ScannedFiles = [], SkippedFiles = [sk],
     Summary = \<lparr>FilesScanned = 0, FilesSkipped = 1, FindingsCount = 0\<rparr>\<rparr>"
  by (simp add: finish_def sort_Slice_def)

lemma Scan_binary_file:
  assumes "Getwd E = Inr cwd" and "TrimSpace E p = p" and "p \<noteq> []" and "Stat E p = Inr False"
    and "Abs E p = Inr a"
    and "isIncluded E (displayPath E cwd a) (Include opts)"
    and "\<not> isExcluded E (displayPath E cwd a) (Exclude opts)"
    and "\<not> isAllowedFile E (displayPath E cwd a) (AllowFilePatterns opts)"
    and "ReadFile E a = Inr data" and "isBinary data"
  shows "Scan E [p] opts =
    (\<lparr>Findings = [], ScannedFiles = [],
      SkippedFiles = [\<lparr>SkippedPath = displayPath E cwd a, Reason = ''binary file''\<rparr>],
      Summary = \<lparr>FilesScanned = 0, FilesSkipped = 1, FindingsCount = 0\<rparr>\<rparr>, None)"
proof -
  have f: "scanFile E p cwd (normalizeOptions opts) start_state =
    (add_skipped (start_state\<lparr>visited := insert a (visited start_state),
        read_log := read_log start_state @ [a]\<rparr>) (displayPath E cwd a) ''binary file'', None)"
    using assms(5-10) by (intro scanFile_binary) (simp_all add: start_state_def)
  have r: "scan_run E [p] opts cwd =
    (add_skipped (start_state\<lparr>visited := insert a (visited start_state),
        read_log := read_log start_state @ [a]\<rparr>) (displayPath E cwd a) ''binary file'', None)"
    using assms(2-4) by (simp add: scan_run_def cleanPaths_def f)
  show ?thesis
    using assms(1)
    by (simp add: Scan_def r add_skipped_def start_state_def finish_skipped_only)
qed


text \<open>A two-byte file that begins with a NUL byte, and options that exclude it by name.\<close>

definition blob :: string where
  "blob = [CHR 0x00, CHR 0x01]"

definition blob_env :: env where
  "blob_env = example_env [(''/work/blob.bin'', blob)]"

definition exclude_blob :: Options where
  "exclude_blob = defaultOptions\<lparr>Exclude := [''blob.bin'']\<rparr>"

lemma blob_env_facts:
  "Getwd blob_env = Inr ''/work''"
  "TrimSpace blob_env ''blob.bin'' = ''blob.bin''"
  "Stat blob_env ''blob.bin'' = Inr False"
  "Abs blob_env ''blob.bin'' = Inr ''/work/blob.bin''"
  "ReadFile blob_env ''/work/blob.bin'' = Inr blob"
  "displayPath blob_env ''/work'' ''/work/blob.bin'' = ''blob.bin''"
  by (simp_all add: blob_env_def example_env_def HasPrefix_def ascii_TrimSpace_def
      ascii_space_def displayPath_def ToSlash_def)

lemma binary_blob: "binary_by_spec blob" "isBinary blob"
  by (simp_all add: binary_by_spec_def blob_def isBinary_def)

lemma blob_filters:
  "isIncluded blob_env ''blob.bin'' (Include defaultOptions)"
  "\<not> isExcluded blob_env ''blob.bin'' (Exclude defaultOptions)"
  "\<not> isAllowedFile blob_env ''blob.bin'' (AllowFilePatterns defaultOptions)"
  "isExcluded blob_env ''blob.bin'' (Exclude exclude_blob)"
  "isIncluded blob_env ''blob.bin'' (Include exclude_blob)"
  by (simp_all add: isIncluded_def isExcluded_def isAllowedFile_def defaultOptions_fields
      exclude_blob_def defaultOptions_def matches_def blob_env_def example_env_def
      ascii_TrimSpace_def ascii_space_def literal_Match_def ToSlash_def)

lemma Scan_blob_default:
  "Scan blob_env [''blob.bin''] defaultOptions =
    (\<lparr>Findings = [], ScannedFiles = [],
      SkippedFiles = [\<lparr>SkippedPath = ''blob.bin'', Reason = ''binary file''\<rparr>],
      Summary = \<lparr>FilesScanned = 0, FilesSkipped = 1, FindingsCount = 0\<rparr>\<rparr>, None)"
  using Scan_binary_file[of blob_env "''/work''" "''blob.bin''" "''/work/blob.bin''" defaultOptions blob]
  by (simp add: blob_env_facts blob_filters binary_blob)




lemma scanFile_text:
  assumes "Abs E path = Inr a" and "a \<notin> visited st"
    and "isIncluded E (displayPath E cwd a) (Include opts)"
    and "\<not> isExcluded E (displayPath E cwd a) (Exclude opts)"
    and "\<not> isAllowedFile E (displayPath E cwd a) (AllowFilePatterns opts)"
    and "ReadFile E a = Inr data" and "\<not> isBinary data"
  shows "scanFile E path cwd opts st =
    (add_scanned (st\<lparr>visited := insert a (visited st), read_log := read_log st @ [a]\<rparr>)
       (displayPath E cwd a)
       (scanContent E (displayPath E cwd a) data (syntaxForPath E (displayPath E cwd a)) opts),
     None)"
  using assms by (simp add: scanFile_def Let_def)

lemma Scan_text_file:
  assumes "Getwd E = Inr cwd" and "TrimSpace E p = p" and "p \<noteq> []" and "Stat E p = Inr False"
    and "Abs E p = Inr a"
    and "isIncluded E (displayPath E cwd a) (Include opts)"
    and "\<not> isExcluded E (displayPath E cwd a) (Exclude opts)"
    and "\<not> isAllowedFile E (displayPath E cwd a) (AllowFilePatterns opts)"
    and "ReadFile E a = Inr data" and "\<not> isBinary data"
  shows "ScannedFiles (fst (Scan E [p] opts)) = [displayPath E cwd a]
    \<and> Findings (fst (Scan E [p] opts)) = sort_Slice finding_less
         (scanContent E (displayPath E cwd a) data (syntaxForPath E (displayPath E cwd a))
            (normalizeOptions opts))
    \<and> snd (Scan E [p] opts) = None"
proof -
  let ?d = "displayPath E cwd a"
  let ?fs = "scanContent E ?d data (syntaxForPath E ?d) (normalizeOptions opts)"
  let ?st = "add_scanned (start_state\<lparr>visited := insert a (visited start_state),
        read_log := read_log start_state @ [a]\<rparr>) ?d ?fs"
  have f: "scanFile E p cwd (normalizeOptions opts) start_state = (?st, None)"
    using assms(5-10) by (intro scanFile_text) (simp_all add: start_state_def)
  have r: "scan_run E [p] opts cwd = (?st, None)"
    using assms(2-4) by (simp add: scan_run_def cleanPaths_def f)
  show ?thesis
    using assms(1)
    by (simp add: Scan_def r start_state_def finish_def Let_def)
qed

lemma scan_run_one_file_le:
  assumes "TrimSpace E p \<noteq> []" and "Stat E (TrimSpace E p) = Inr False"
  shows "length (ScannedFiles (res (fst (scan_run E [p] opts cwd)))) \<le> 1"
proof -
  have c: "cleanPaths E [p] = [TrimSpace E p]" using assms(1) by (simp add: cleanPaths_twice)
  have "length (ScannedFiles (res (fst (scanFile E (TrimSpace E p) cwd (normalizeOptions opts)
      start_state)))) \<le> Suc (length (ScannedFiles (res start_state)))"
    by (rule scanFile_scanned_le)
  then show ?thesis
    unfolding scan_run_def c using assms(2)
    by (auto simp: start_state_def split: prod.splits option.splits)
qed

lemma Scan_one_file_le:
  assumes "TrimSpace E p \<noteq> []" and "Stat E (TrimSpace E p) = Inr False"
  shows "length (ScannedFiles (fst (Scan E [p] opts))) \<le> 1"
proof (cases "Getwd E")
  case (Inl e)
  then show ?thesis by (simp add: Scan_def emptyResult_def)
next
  case (Inr cwd)
  have "length (ScannedFiles (fst (Scan E [p] opts)))
      \<le> length (ScannedFiles (res (fst (scan_run E [p] opts cwd))))"
    using Scan_ScannedFiles_run[of E "[p]" opts] Inr by simp
  with scan_run_one_file_le[OF assms, of opts cwd] show ?thesis by linarith
qed

lemma sample_env_display: "displayPath sample_env ''/work'' ''/work/sample.go'' = ''sample.go''"
  by (simp add: displayPath_def sample_env_facts HasPrefix_def ToSlash_def)

lemma sample_env_filters:
  "isIncluded sample_env ''sample.go'' (Include defaultOptions)"
  "\<not> isExcluded sample_env ''sample.go'' (Exclude defaultOptions)"
  "\<not> isAllowedFile sample_env ''sample.go'' (AllowFilePatterns defaultOptions)"
  by (simp_all add: isIncluded_def isExcluded_def isAllowedFile_def defaultOptions_fields)




text \<open>
  Claim C8, as the code has it. For a path \<open>p\<close> that is a file, \<open>Scan([p, p], opts)\<close>
  returns what \<open>Scan([p], opts)\<close> returns, and the file is in the scanned files at most
  once; it is there exactly once, with the findings of one scan of its content, when it
  passes the filters, can be read and is not binary. In every invocation no absolute path
  is read twice, and the scanned files are the display paths of the text files read:
  however often a path is passed or reached, it is scanned at most once.
\<close>

theorem Scan_dedup:
  "(TrimSpace E p \<noteq> [] \<and> Stat E (TrimSpace E p) = Inr False \<longrightarrow>
      Scan E [p, p] opts = Scan E [p] opts
      \<and> length (ScannedFiles (fst (Scan E [p, p] opts))) \<le> 1)
   \<and> (Getwd E = Inr cwd \<and> TrimSpace E p = p \<and> p \<noteq> [] \<and> Stat E p = Inr False
       \<and> Abs E p = Inr a
       \<and> isIncluded E (displayPath E cwd a) (Include opts)
       \<and> \<not> isExcluded E (displayPath E cwd a) (Exclude opts)
       \<and> \<not> isAllowedFile E (displayPath E cwd a) (AllowFilePatterns opts)
       \<and> ReadFile E a = Inr data \<and> \<not> isBinary data \<longrightarrow>
      ScannedFiles (fst (Scan E [p, p] opts)) = [displayPath E cwd a]
      \<and> Findings (fst (Scan E [p, p] opts)) = sort_Slice finding_less
           (scanContent E (displayPath E cwd a) data (syntaxForPath E (displayPath E cwd a))
              (normalizeOptions opts)))
   \<and> distinct (read_log (fst (scan_run E paths opts cwd)))
   \<and> ScannedFiles (res (fst (scan_run E paths opts cwd)))
       = map (displayPath E cwd) (filter (is_text E) (read_log (fst (scan_run E paths opts cwd))))"
proof -
  have 1: "Scan E [p, p] opts = Scan E [p] opts
      \<and> length (ScannedFiles (fst (Scan E [p, p] opts))) \<le> 1"
    if "TrimSpace E p \<noteq> []" "Stat E (TrimSpace E p) = Inr False"
  proof -
    have t: "Scan E [p, p] opts = Scan E [p] opts"
      by (rule Scan_twice) (simp add: that(2))
    with Scan_one_file_le[OF that, of opts] show ?thesis by simp
  qed
  have 2: "ScannedFiles (fst (Scan E [p, p] opts)) = [displayPath E cwd a]
      \<and> Findings (fst (Scan E [p, p] opts)) = sort_Slice finding_less
           (scanContent E (displayPath E cwd a) data (syntaxForPath E (displayPath E cwd a))
              (normalizeOptions opts))"
    if h: "Getwd E = Inr cwd" "TrimSpace E p = p" "p \<noteq> []" "Stat E p = Inr False"
       "Abs E p = Inr a"
       "isIncluded E (displayPath E cwd a) (Include opts)"
       "\<not> isExcluded E (displayPath E cwd a) (Exclude opts)"
       "\<not> isAllowedFile E (displayPath E cwd a) (AllowFilePatterns opts)"
       "ReadFile E a = Inr data" "\<not> isBinary data"
  proof -
    have t: "Scan E [p, p] opts = Scan E [p] opts"
      by (rule Scan_twice) (simp add: h(2,4))
    show ?thesis unfolding t using Scan_text_file[OF h] by simp
  qed
  have 3: "log_inv E cwd (fst (scan_run E paths opts cwd))" by (rule scan_run_log_inv)
  from 1 2 3 show ?thesis unfolding log_inv_def by blast
qed

theorem Scan_dedup_witness:
  "TrimSpace sample_env ''sample.go'' \<noteq> []
   \<and> Stat sample_env (TrimSpace sample_env ''sample.go'') = Inr False
   \<and> Getwd sample_env = Inr ''/work''
   \<and> Abs sample_env ''sample.go'' = Inr ''/work/sample.go''
   \<and> isIncluded sample_env (displayPath sample_env ''/work'' ''/work/sample.go'')
         (Include defaultOptions)
   \<and> \<not> isExcluded sample_env (displayPath sample_env ''/work'' ''/work/sample.go'')
         (Exclude defaultOptions)
   \<and> \<not> isAllowedFile sample_env (displayPath sample_env ''/work'' ''/work/sample.go'')
         (AllowFilePatterns defaultOptions)
   \<and> ReadFile sample_env ''/work/sample.go'' = Inr sample_go
   \<and> \<not> isBinary sample_go
   \<and> Scan sample_env [''sample.go'', ''sample.go''] defaultOptions
       = Scan sample_env [''sample.go''] defaultOptions
   \<and> ScannedFiles (fst (Scan sample_env [''sample.go'', ''sample.go''] defaultOptions))
       = [''sample.go'']"
  using Scan_dedup[of sample_env "''sample.go''" defaultOptions "''/work''" "''/work/sample.go''"
      sample_go "[''sample.go'']"]
  by (auto simp add: sample_env_facts sample_env_display sample_env_filters isBinary_sample_go)

text \<open>
  Claim C8 as the spec states it says that the file appears once in the scanned files for
  every \<open>Options\<close> value. A binary file passed twice is read once and skipped: it does
  not appear in the scanned files.
\<close>

theorem Scan_dedup_counterexample:
  "Stat blob_env ''blob.bin'' = Inr False
   \<and> ScannedFiles (fst (Scan blob_env [''blob.bin'', ''blob.bin''] defaultOptions)) = []"
proof -
  have "Scan blob_env [''blob.bin'', ''blob.bin''] defaultOptions
      = Scan blob_env [''blob.bin''] defaultOptions"
    by (rule Scan_twice) (simp add: blob_env_facts)
  then show ?thesis by (simp add: Scan_blob_default blob_env_facts)
qed

section \<open>Failing fast\<close>

text \<open>
  When does a scan meet a file-system error? A file that passed filtering cannot be read
  if it is included, not excluded, not matched by an allow-file pattern, and \<open>os.ReadFile\<close>
  fails. A directory is pruned if an exclude pattern matches it. A walk meets an error at a
  root whose \<open>Lstat\<close> fails, at a regular file that passed filtering and cannot be read,
  and at a directory that is not pruned and either cannot be read or has an entry at which
  the walk meets an error. A root path fails if \<open>os.Stat\<close> fails, or if it is a directory
  whose walk meets an error, or if it is a file that passed filtering and cannot be read.
\<close>

definition unreadable :: "env \<Rightarrow> string \<Rightarrow> Options \<Rightarrow> string \<Rightarrow> bool" where
  "unreadable E cwd opts absp \<longleftrightarrow>
    isIncluded E (displayPath E cwd absp) (Include opts)
    \<and> \<not> isExcluded E (displayPath E cwd absp) (Exclude opts)
    \<and> \<not> isAllowedFile E (displayPath E cwd absp) (AllowFilePatterns opts)
    \<and> isl (ReadFile E absp)"

definition pruned :: "env \<Rightarrow> string \<Rightarrow> Options \<Rightarrow> string \<Rightarrow> bool" where
  "pruned E cwd opts path \<longleftrightarrow>
    displayPath E cwd path \<noteq> ''.'' \<and> isExcluded E (displayPath E cwd path) (Exclude opts)"

definition file_fails :: "env \<Rightarrow> string \<Rightarrow> Options \<Rightarrow> string \<Rightarrow> bool" where
  "file_fails E cwd opts path =
    (case Abs E path of Inr absp \<Rightarrow> unreadable E cwd opts absp | Inl err \<Rightarrow> False)"

fun walk_fails :: "env \<Rightarrow> string \<Rightarrow> Options \<Rightarrow> wnode \<Rightarrow> bool" where
  "walk_fails E cwd opts (WFail path e) = True"
| "walk_fails E cwd opts (WLeaf path regular) = (regular \<and> file_fails E cwd opts path)"
| "walk_fails E cwd opts (WDir path readErr entries) =
    (\<not> pruned E cwd opts path \<and> (readErr \<noteq> None \<or> (\<exists>d \<in> set entries. walk_fails E cwd opts d)))"

definition root_fails :: "env \<Rightarrow> string \<Rightarrow> Options \<Rightarrow> string \<Rightarrow> bool" where
  "root_fails E cwd opts path =
    (case Stat E path of
       Inl err \<Rightarrow> True
     | Inr isDir \<Rightarrow>
         if isDir then walk_fails E cwd opts (WalkTree E path) else file_fails E cwd opts path)"

definition read_inv :: "env \<Rightarrow> string \<Rightarrow> Options \<Rightarrow> scan_state \<Rightarrow> bool" where
  "read_inv E cwd opts st \<longleftrightarrow> (\<forall>a \<in> visited st. \<not> unreadable E cwd opts a)"

lemma scanFile_read_inv:
  "read_inv E cwd opts st \<Longrightarrow> scanFile E path cwd opts st = (st', None) \<Longrightarrow> read_inv E cwd opts st'"
  unfolding scanFile_def read_inv_def unreadable_def
  by (auto simp: Let_def add_skipped_def add_scanned_def split: sum.splits if_splits)

lemma scanFile_fails:
  "read_inv E cwd opts st \<Longrightarrow> file_fails E cwd opts path
    \<Longrightarrow> \<exists>st' e. scanFile E path cwd opts st = (st', Some e)"
  unfolding scanFile_def read_inv_def unreadable_def file_fails_def
  by (auto simp: Let_def split: sum.splits if_splits)


definition is_err :: "walk_ret \<Rightarrow> bool" where
  "is_err w = (case w of WErr e \<Rightarrow> True | _ \<Rightarrow> False)"

lemma is_err_simps [simp]: "\<not> is_err WNil" "\<not> is_err WSkipDir" "is_err (WErr e)"
  by (simp_all add: is_err_def)

lemma entries_no_skip: "snd (filepath_walkDir_entries fn ts s) \<noteq> WSkipDir"
proof (induction ts arbitrary: s)
  case Nil
  then show ?case by simp
next
  case (Cons d ds)
  obtain s1 w1 where f: "filepath_walkDir fn d s = (s1, w1)" by force
  show ?case using f Cons.IH[of s1] by (cases w1) simp_all
qed

lemma walk_no_skip:
  assumes "\<And>path r err s. snd (fn path False r err s) \<noteq> WSkipDir"
  shows "snd (filepath_walkDir fn t s) \<noteq> WSkipDir"
proof (cases t)
  case (WFail path e)
  then show ?thesis using assms by simp
next
  case (WLeaf path regular)
  then show ?thesis using assms by simp
next
  case (WDir path readErr entries)
  obtain s1 w1 where f1: "fn path True False None s = (s1, w1)" by force
  show ?thesis
  proof (cases w1)
    case WNil
    show ?thesis
    proof (cases readErr)
      case None
      with WDir f1 WNil show ?thesis by (simp add: entries_no_skip)
    next
      case (Some e)
      obtain s2 w2 where f2: "fn path True False (Some e) s1 = (s2, w2)" by force
      with WDir f1 WNil Some show ?thesis by (cases w2) (simp_all add: entries_no_skip)
    qed
  next
    case WSkipDir
    with WDir f1 show ?thesis by simp
  next
    case (WErr e)
    with WDir f1 show ?thesis by simp
  qed
qed

lemma walk_invariant_ok:
  fixes fn :: "string \<Rightarrow> bool \<Rightarrow> bool \<Rightarrow> error option \<Rightarrow> 's \<Rightarrow> 's \<times> walk_ret"
  shows "(\<And>path d r err s s' w. P s \<Longrightarrow> fn path d r err s = (s', w) \<Longrightarrow> \<not> is_err w \<Longrightarrow> P s')
      \<Longrightarrow> P s \<Longrightarrow> filepath_walkDir fn t s = (s', w) \<Longrightarrow> \<not> is_err w \<Longrightarrow> P s'"
    and "(\<And>path d r err s s' w. P s \<Longrightarrow> fn path d r err s = (s', w) \<Longrightarrow> \<not> is_err w \<Longrightarrow> P s')
      \<Longrightarrow> P s \<Longrightarrow> filepath_walkDir_entries fn ts s = (s', w) \<Longrightarrow> \<not> is_err w \<Longrightarrow> P s'"
proof (induction fn t s and fn ts s arbitrary: s' w and s' w
    rule: filepath_walkDir_filepath_walkDir_entries.induct)
  case (1 fn path e s)
  from "1.prems"(1)[OF "1.prems"(2), of path False False "Some e" s' w] "1.prems"(3,4)
  show ?case by simp
next
  case (2 fn path regular s)
  from "2.prems"(1)[OF "2.prems"(2), of path False regular None s' w] "2.prems"(3,4)
  show ?case by simp
next
  case (3 fn path readErr entries s)
  obtain s1 w1 where f1: "fn path True False None s = (s1, w1)" by force
  show ?case
  proof (cases w1)
    case WNil
    have p1: "P s1" using "3.prems"(1)[OF "3.prems"(2) f1] WNil by simp
    show ?thesis
    proof (cases readErr)
      case None
      have "filepath_walkDir_entries fn entries s1 = (s', w)"
        using "3.prems"(3) f1 WNil None by simp
      from "3.IH"(1)[OF f1[symmetric] WNil None "3.prems"(1) p1 this "3.prems"(4)]
      show ?thesis .
    next
      case (Some e)
      obtain s2 w2 where f2: "fn path True False (Some e) s1 = (s2, w2)" by force
      show ?thesis
      proof (cases w2)
        case WNil2: WNil
        have p2: "P s2" using "3.prems"(1)[OF p1 f2] WNil2 by simp
        have "filepath_walkDir_entries fn entries s2 = (s', w)"
          using "3.prems"(3) f1 WNil Some f2 WNil2 by simp
        from "3.IH"(2)[OF f1[symmetric] WNil Some f2[symmetric] WNil2 "3.prems"(1) p2 this
            "3.prems"(4)]
        show ?thesis .
      next
        case WSkipDir
        have "s' = s2" using "3.prems"(3) f1 WNil Some f2 WSkipDir by simp
        moreover have "P s2" using "3.prems"(1)[OF p1 f2] WSkipDir by simp
        ultimately show ?thesis by simp
      next
        case (WErr e')
        with "3.prems"(3,4) f1 WNil Some f2 show ?thesis by auto
      qed
    qed
  next
    case WSkipDir
    have "s' = s1" using "3.prems"(3) f1 WSkipDir by simp
    moreover have "P s1" using "3.prems"(1)[OF "3.prems"(2) f1] WSkipDir by simp
    ultimately show ?thesis by simp
  next
    case (WErr e)
    with "3.prems"(3,4) f1 show ?thesis by auto
  qed
next
  case (4 fn s)
  then show ?case by simp
next
  case (5 fn d ds s)
  obtain s1 w1 where f1: "filepath_walkDir fn d s = (s1, w1)" by force
  show ?case
  proof (cases w1)
    case WNil
    have p1: "P s1" using "5.IH"(1)[OF "5.prems"(1,2) f1] WNil by simp
    have "filepath_walkDir_entries fn ds s1 = (s', w)" using "5.prems"(3) f1 WNil by simp
    from "5.IH"(2)[OF f1[symmetric] WNil "5.prems"(1) p1 this "5.prems"(4)] show ?thesis .
  next
    case WSkipDir
    have "s' = s1" using "5.prems"(3) f1 WSkipDir by simp
    moreover have "P s1" using "5.IH"(1)[OF "5.prems"(1,2) f1] WSkipDir by simp
    ultimately show ?thesis by simp
  next
    case (WErr e)
    with "5.prems"(3,4) f1 show ?thesis by auto
  qed
qed


lemma walk_fn_no_skip: "snd (walk_fn E cwd opts path False r err s) \<noteq> WSkipDir"
  by (auto simp: walk_fn_def Let_def split: option.splits prod.splits)

lemma walk_fn_read_inv:
  "read_inv E cwd opts s \<Longrightarrow> walk_fn E cwd opts path d r err s = (s', w) \<Longrightarrow> \<not> is_err w
    \<Longrightarrow> read_inv E cwd opts s'"
  by (auto simp: walk_fn_def Let_def split: option.splits prod.splits if_splits
      dest: scanFile_read_inv)

lemma walk_read_inv:
  "read_inv E cwd opts s \<Longrightarrow> filepath_walkDir (walk_fn E cwd opts) t s = (s', w) \<Longrightarrow> \<not> is_err w
    \<Longrightarrow> read_inv E cwd opts s'"
  by (rule walk_invariant_ok(1)[where P = "read_inv E cwd opts" and fn = "walk_fn E cwd opts"])
    (auto intro: walk_fn_read_inv)

lemma walk_fn_dir:
  "walk_fn E cwd opts path True r None s = (s, if pruned E cwd opts path then WSkipDir else WNil)"
  by (simp add: walk_fn_def pruned_def Let_def)

lemma walk_fn_err: "walk_fn E cwd opts path d r (Some e) s = (s, WErr e)"
  by (simp add: walk_fn_def)

lemma entries_fail:
  assumes some: "\<exists>d \<in> set ds. \<forall>s. read_inv E cwd opts s
      \<longrightarrow> is_err (snd (filepath_walkDir (walk_fn E cwd opts) d s))"
  shows "read_inv E cwd opts s \<Longrightarrow> is_err (snd (filepath_walkDir_entries (walk_fn E cwd opts) ds s))"
  using some
proof (induction ds arbitrary: s)
  case Nil
  then show ?case by simp
next
  case (Cons d ds)
  obtain s1 w1 where f: "filepath_walkDir (walk_fn E cwd opts) d s = (s1, w1)" by force
  show ?case
  proof (cases w1)
    case WNil
    have i1: "read_inv E cwd opts s1" using walk_read_inv[OF Cons.prems(1) f] WNil by simp
    have "\<not> is_err (snd (filepath_walkDir (walk_fn E cwd opts) d s))" using f WNil by simp
    with Cons.prems have "\<exists>d \<in> set ds. \<forall>s. read_inv E cwd opts s
      \<longrightarrow> is_err (snd (filepath_walkDir (walk_fn E cwd opts) d s))"
      by auto
    from Cons.IH[OF i1 this] f WNil show ?thesis by simp
  next
    case WSkipDir
    with f walk_no_skip[of "walk_fn E cwd opts" d s, OF walk_fn_no_skip] show ?thesis by simp
  next
    case (WErr e)
    with f show ?thesis by simp
  qed
qed

lemma walk_fails_err:
  "walk_fails E cwd opts t \<Longrightarrow> read_inv E cwd opts s
    \<Longrightarrow> is_err (snd (filepath_walkDir (walk_fn E cwd opts) t s))"
proof (induction t arbitrary: s)
  case (WFail path e)
  then show ?case by (simp add: walk_fn_err)
next
  case (WLeaf path regular)
  then have "regular" "file_fails E cwd opts path" by simp_all
  with scanFile_fails[OF WLeaf.prems(2), of path] show ?case
    by (auto simp: walk_fn_def Let_def)
next
  case (WDir path readErr entries)
  from WDir.prems(1) have np: "\<not> pruned E cwd opts path" by simp
  show ?case
  proof (cases readErr)
    case (Some e)
    with np show ?thesis by (simp add: walk_fn_dir walk_fn_err)
  next
    case None
    with WDir.prems(1) obtain d where d: "d \<in> set entries" "walk_fails E cwd opts d" by auto
    have "\<forall>s. read_inv E cwd opts s \<longrightarrow> is_err (snd (filepath_walkDir (walk_fn E cwd opts) d s))"
      using WDir.IH[OF d(1) d(2)] by blast
    with d(1) have "is_err (snd (filepath_walkDir_entries (walk_fn E cwd opts) entries s))"
      using entries_fail[OF _ WDir.prems(2)] by blast
    with np None show ?thesis by (simp add: walk_fn_dir)
  qed
qed


lemma walkDir_read_inv:
  "read_inv E cwd opts s \<Longrightarrow> walkDir E dir cwd opts s = (s', None) \<Longrightarrow> read_inv E cwd opts s'"
proof -
  assume i: "read_inv E cwd opts s" and w: "walkDir E dir cwd opts s = (s', None)"
  obtain s1 w1 where f: "filepath_walkDir (walk_fn E cwd opts) (WalkTree E dir) s = (s1, w1)"
    by force
  with w have "s1 = s'" "\<not> is_err w1"
    by (cases w1; simp add: walkDir_def filepath_WalkDir_def)+
  with walk_read_inv[OF i f] show ?thesis by simp
qed

lemma walkDir_fails:
  "walk_fails E cwd opts (WalkTree E dir) \<Longrightarrow> read_inv E cwd opts s
    \<Longrightarrow> \<exists>s' e. walkDir E dir cwd opts s = (s', Some e)"
proof -
  assume "walk_fails E cwd opts (WalkTree E dir)" "read_inv E cwd opts s"
  then have e: "is_err (snd (filepath_walkDir (walk_fn E cwd opts) (WalkTree E dir) s))"
    by (rule walk_fails_err)
  obtain s1 w1 where f: "filepath_walkDir (walk_fn E cwd opts) (WalkTree E dir) s = (s1, w1)"
    by force
  with e show ?thesis by (cases w1) (simp_all add: walkDir_def filepath_WalkDir_def)
qed

lemma scan_roots_fails:
  "\<exists>p \<in> set paths. root_fails E cwd opts p \<Longrightarrow> read_inv E cwd opts st
    \<Longrightarrow> \<exists>st' e. scan_roots E cwd opts paths st = (st', Some e)"
proof (induction paths arbitrary: st)
  case Nil
  then show ?case by simp
next
  case (Cons p ps)
  show ?case
  proof (cases "Stat E p")
    case (Inl e)
    then show ?thesis by simp
  next
    case (Inr isDir)
    define step where "step = (if isDir then walkDir E p cwd opts st else scanFile E p cwd opts st)"
    obtain st1 r1 where s: "step = (st1, r1)" by force
    show ?thesis
    proof (cases r1)
      case (Some e)
      with Inr s show ?thesis by (simp add: step_def)
    next
      case None
      have i1: "read_inv E cwd opts st1"
        using s None Cons.prems(2) unfolding step_def
        by (auto split: if_splits dest: walkDir_read_inv scanFile_read_inv)
      have "\<not> root_fails E cwd opts p"
      proof
        assume "root_fails E cwd opts p"
        with Inr have "if isDir then walk_fails E cwd opts (WalkTree E p)
            else file_fails E cwd opts p"
          by (simp add: root_fails_def)
        then have "\<exists>st' e. step = (st', Some e)"
          unfolding step_def using walkDir_fails[OF _ Cons.prems(2), of p]
            scanFile_fails[OF Cons.prems(2), of p]
          by (auto split: if_splits)
        with s None show False by simp
      qed
      with Cons.prems(1) have "\<exists>p \<in> set ps. root_fails E cwd opts p" by auto
      from Cons.IH[OF this i1] Inr s None show ?thesis by (simp add: step_def)
    qed
  qed
qed

lemma unreadable_normalize [simp]:
  "unreadable E cwd (normalizeOptions opts) a = unreadable E cwd opts a"
  by (simp add: unreadable_def normalizeOptions_def)

lemma pruned_normalize [simp]: "pruned E cwd (normalizeOptions opts) p = pruned E cwd opts p"
  by (simp add: pruned_def normalizeOptions_def)

lemma file_fails_normalize [simp]:
  "file_fails E cwd (normalizeOptions opts) p = file_fails E cwd opts p"
  by (simp add: file_fails_def split: sum.splits)

lemma walk_fails_normalize [simp]:
  "walk_fails E cwd (normalizeOptions opts) t = walk_fails E cwd opts t"
  by (induction t) auto

lemma root_fails_normalize [simp]:
  "root_fails E cwd (normalizeOptions opts) p = root_fails E cwd opts p"
  by (simp add: root_fails_def split: sum.splits)

lemma Scan_error_or_result:
  "(\<exists>r. Scan E paths opts = (r, None)) \<or> (\<exists>e. Scan E paths opts = (emptyResult, Some e))"
  by (auto simp: Scan_def split: sum.splits prod.splits option.splits)

lemma Scan_fails:
  assumes "Getwd E = Inr cwd" and "\<exists>p \<in> set (cleanPaths E paths). root_fails E cwd opts p"
  shows "\<exists>e. Scan E paths opts = (emptyResult, Some e)"
proof -
  have "read_inv E cwd (normalizeOptions opts) start_state"
    by (simp add: read_inv_def start_state_def)
  moreover have "\<exists>p \<in> set (cleanPaths E paths). root_fails E cwd (normalizeOptions opts) p"
    using assms(2) by simp
  ultimately obtain st' e where "scan_run E paths opts cwd = (st', Some e)"
    unfolding scan_run_def using scan_roots_fails by blast
  with assms(1) show ?thesis by (simp add: Scan_def)
qed

text \<open>
  A directory \<open>src\<close> with a readable file and a subdirectory that cannot be read.
\<close>

definition locked_tree :: wnode where
  "locked_tree =
    WDir ''src'' None
      [WLeaf ''src/a.go'' True,
       WDir ''src/locked'' (Some (SysError ''permission denied'')) []]"

definition locked_env :: env where
  "locked_env =
    (example_env [(''/work/src/a.go'', ''package a'')])
      \<lparr>Stat := (\<lambda>p. if p = ''src'' then Inr True else Inl (SysError ''no such file or directory'')),
       WalkTree := (\<lambda>dir. if dir = ''src'' then locked_tree
                          else WFail dir (SysError ''no such file or directory''))\<rparr>"

lemma locked_env_facts:
  "Getwd locked_env = Inr ''/work''"
  "cleanPaths locked_env [''src''] = [''src'']"
  "Stat locked_env ''src'' = Inr True"
  "WalkTree locked_env ''src'' = locked_tree"
  by (simp_all add: locked_env_def example_env_def cleanPaths_def ascii_TrimSpace_def ascii_space_def)

lemma locked_tree_fails: "walk_fails locked_env ''/work'' defaultOptions locked_tree"
  by (simp add: locked_tree_def pruned_def isExcluded_def defaultOptions_fields)

text \<open>
  Claim C9. If a root path (after blank paths are dropped) does not exist or cannot be
  stat'ed, or a directory reached by the traversal cannot be read, or a file that passed
  filtering cannot be read, then \<open>Scan\<close> returns an error together with the empty result.
  And whenever \<open>Scan\<close> returns an error, the result it returns with it is empty: nothing
  found or scanned before the error is returned.
\<close>

theorem Scan_fail_fast:
  "(Getwd E = Inr cwd \<and> (\<exists>p \<in> set (cleanPaths E paths). root_fails E cwd opts p)
      \<longrightarrow> (\<exists>e. Scan E paths opts = (emptyResult, Some e)))
   \<and> (snd (Scan E paths opts) \<noteq> None \<longrightarrow> fst (Scan E paths opts) = emptyResult)"
proof -
  have 1: "\<exists>e. Scan E paths opts = (emptyResult, Some e)"
    if "Getwd E = Inr cwd" "\<exists>p \<in> set (cleanPaths E paths). root_fails E cwd opts p"
    using that by (rule Scan_fails)
  have 2: "fst (Scan E paths opts) = emptyResult" if "snd (Scan E paths opts) \<noteq> None"
    using that Scan_error_or_result[of E paths opts] by auto
  from 1 2 show ?thesis by blast
qed

theorem Scan_fail_fast_witness:
  "Getwd locked_env = Inr ''/work''
   \<and> (\<exists>p \<in> set (cleanPaths locked_env [''src'']). root_fails locked_env ''/work'' defaultOptions p)
   \<and> fst (Scan locked_env [''src''] defaultOptions) = emptyResult
   \<and> snd (Scan locked_env [''src''] defaultOptions) \<noteq> None"
  using Scan_fail_fast[of locked_env "''/work''" "[''src'']" defaultOptions]
  by (auto simp add: locked_env_facts root_fails_def locked_tree_fails)

section \<open>The positions the scanner inspects\<close>












section \<open>Comments and strings\<close>
















end
